theory Spec2Isabelle
  imports Main
begin

section \<open>Regular expressions as Go's regexp package matches them\<close>

text \<open>
  The decoder of \<^verbatim>\<open>src/hello.go\<close> drives everything through
  \<^verbatim>\<open>regexp.FindStringSubmatchIndex\<close> and \<^verbatim>\<open>FindAllStringSubmatchIndex\<close>.
  Go's matcher returns the leftmost match and, among the matches starting there, the one a
  backtracking matcher finds first (alternatives left to right, greedy repetition).
  The syntax tree below has what the patterns of \<^verbatim>\<open>parserStrings\<close> use:
  \<^verbatim>\<open>^\<close> (start of text), one byte out of a class, concatenation, alternation, greedy
  star and numbered capture groups.
\<close>

datatype re =
    Eps
  | Bol
  | Cls string
  | Seq re re
  | Alt re re
  | Star re
  | Grp nat re

text \<open>
  A matcher thread: the byte offset reached in the text, the text still ahead and the
  capture array (Go's \<^verbatim>\<open>[]int\<close>: slots \<open>2 * n\<close> and \<open>2 * n + 1\<close> are the bounds
  of group \<open>n\<close>, \<open>-1\<close> while the group has not taken part).
\<close>

record thread =
  pos :: int
  rest :: string
  caps :: "int list"

primrec star :: "((thread \<Rightarrow> 'a option) \<Rightarrow> thread \<Rightarrow> 'a option) \<Rightarrow>
    (thread \<Rightarrow> 'a option) \<Rightarrow> nat \<Rightarrow> thread \<Rightarrow> 'a option" where
  "star f k 0 t = k t"
| "star f k (Suc n) t =
     (case f (\<lambda>t'. if length (rest t') < length (rest t) then star f k n t' else None) t of
        Some x \<Rightarrow> Some x
      | None \<Rightarrow> k t)"

primrec run :: "re \<Rightarrow> (thread \<Rightarrow> 'a option) \<Rightarrow> thread \<Rightarrow> 'a option" where
  "run Eps k t = k t"
| "run Bol k t = (if pos t = 0 then k t else None)"
| "run (Cls cs) k t =
     (case rest t of
        [] \<Rightarrow> None
      | c # r \<Rightarrow> if c \<in> set cs then k (t\<lparr>pos := pos t + 1, rest := r\<rparr>) else None)"
| "run (Seq a b) k t = run a (run b k) t"
| "run (Alt a b) k t = (case run a k t of Some x \<Rightarrow> Some x | None \<Rightarrow> run b k t)"
| "run (Star a) k t = star (run a) k (length (rest t)) t"
| "run (Grp n a) k t =
     run a (\<lambda>t'. k (t'\<lparr>caps := (caps t')[2 * n := pos t, 2 * n + 1 := pos t']\<rparr>)) t"

primrec numSubexp :: "re \<Rightarrow> nat" where
  "numSubexp Eps = 0"
| "numSubexp Bol = 0"
| "numSubexp (Cls cs) = 0"
| "numSubexp (Seq a b) = max (numSubexp a) (numSubexp b)"
| "numSubexp (Alt a b) = max (numSubexp a) (numSubexp b)"
| "numSubexp (Star a) = numSubexp a"
| "numSubexp (Grp n a) = max n (numSubexp a)"

definition accept :: "int \<Rightarrow> thread \<Rightarrow> int list option" where
  "accept p t = Some ((caps t)[0 := p, 1 := pos t])"

definition start :: "re \<Rightarrow> int \<Rightarrow> string \<Rightarrow> thread" where
  "start r p s = \<lparr>pos = p, rest = s, caps = replicate (2 * (numSubexp r + 1)) (- 1)\<rparr>"

primrec execute :: "re \<Rightarrow> int \<Rightarrow> string \<Rightarrow> int list option" where
  "execute r p [] = run r (accept p) (start r p [])"
| "execute r p (c # cs) =
     (case run r (accept p) (start r p (c # cs)) of
        Some idx \<Rightarrow> Some idx
      | None \<Rightarrow> execute r (p + 1) cs)"

definition FindStringSubmatchIndex :: "re \<Rightarrow> string \<Rightarrow> int list option" where
  "FindStringSubmatchIndex r s = execute r 0 s"

subsection \<open>Pattern combinators\<close>

primrec lit :: "string \<Rightarrow> re" where
  "lit [] = Eps"
| "lit (c # cs) = Seq (Cls [c]) (lit cs)"

definition opt :: "re \<Rightarrow> re" where
  "opt r = Alt r Eps"

definition plus :: "re \<Rightarrow> re" where
  "plus r = Seq r (Star r)"

fun alts :: "re list \<Rightarrow> re" where
  "alts [] = Cls []"
| "alts [r] = r"
| "alts (r # rs) = Alt r (alts rs)"

definition lits :: "string list \<Rightarrow> re" where
  \<comment> \<open>an alternation of literal words, \<^verbatim>\<open>AB|CD|EF\<close>\<close>
  "lits ws = alts (map lit ws)"

primrec times :: "nat \<Rightarrow> re \<Rightarrow> re" where
  "times 0 r = Eps"
| "times (Suc n) r = Seq r (times n r)"

primrec upto :: "nat \<Rightarrow> re \<Rightarrow> re" where
  "upto 0 r = Eps"
| "upto (Suc n) r = opt (Seq r (upto n r))"

definition rep :: "nat \<Rightarrow> nat \<Rightarrow> re \<Rightarrow> re" where
  "rep n m r = Seq (times n r) (upto (m - n) r)"

lemma times_numeral [simp]: "times (numeral k) r = Seq r (times (pred_numeral k) r)"
  by (simp add: numeral_eq_Suc)

lemma upto_numeral [simp]: "upto (numeral k) r = opt (Seq r (upto (pred_numeral k) r))"
  by (simp add: numeral_eq_Suc)

definition digit :: re where
  "digit = Cls ''0123456789''"

definition upper :: re where
  "upper = Cls ''ABCDEFGHIJKLMNOPQRSTUVWXYZ''"

definition space :: re where
  "space = Cls [CHR 0x09, CHR 0x0A, CHR 0x0C, CHR 0x0D, CHR '' '']"

definition spaces :: re where
  \<comment> \<open>\<^verbatim>\<open>\s+\<close>\<close>
  "spaces = plus space"


lemma run_pos_mono:
  "run r k t = Some x \<Longrightarrow> \<exists>t'. k t' = Some x \<and> pos t \<le> pos t' \<and> length (caps t') = length (caps t)"
proof (induction r arbitrary: k t x)
  case (Cls cs)
  then show ?case
    by (cases "rest t") (auto split: if_splits)
next
  case (Seq a b)
  from Seq.prems have "run a (run b k) t = Some x" by simp
  from Seq.IH(1)[OF this] obtain u
    where u: "run b k u = Some x" "pos t \<le> pos u" "length (caps u) = length (caps t)" by blast
  from Seq.IH(2)[OF u(1)] u(2,3) show ?case by force
next
  case (Alt a b)
  then show ?case by (auto split: option.splits)
next
  case (Star a)
  have "star (run a) k n t = Some x \<Longrightarrow>
      \<exists>t'. k t' = Some x \<and> pos t \<le> pos t' \<and> length (caps t') = length (caps t)" for n
  proof (induction n arbitrary: t)
    case 0
    then show ?case by auto
  next
    case (Suc n)
    show ?case
    proof (cases "run a (\<lambda>t'. if length (rest t') < length (rest t) then star (run a) k n t' else None) t")
      case None
      with Suc.prems show ?thesis by auto
    next
      case (Some y)
      with Suc.prems have "y = x" by simp
      from Star.IH[OF Some] obtain u
        where u: "(if length (rest u) < length (rest t) then star (run a) k n u else None) = Some y"
          "pos t \<le> pos u" "length (caps u) = length (caps t)" by blast
      then have "star (run a) k n u = Some x" using \<open>y = x\<close> by (simp split: if_splits)
      from Suc.IH[OF this] u(2,3) show ?thesis by force
    qed
  qed
  with Star.prems show ?case by simp
next
  case (Grp n a)
  from Grp.prems Grp.IH show ?case by fastforce
qed (auto split: if_splits)

lemma execute_bounds:
  "execute r p s = Some idx \<Longrightarrow> p \<le> idx ! 0 \<and> idx ! 0 \<le> idx ! 1"
proof (induction s arbitrary: p)
  case Nil
  then have "run r (accept p) (start r p []) = Some idx" by simp
  from run_pos_mono[OF this] show ?case
    by (auto simp: accept_def start_def)
next
  case (Cons c cs)
  show ?case
  proof (cases "run r (accept p) (start r p (c # cs))")
    case None
    with Cons.prems have "execute r (p + 1) cs = Some idx" by simp
    from Cons.IH[OF this] show ?thesis by simp
  next
    case (Some y)
    with Cons.prems have "run r (accept p) (start r p (c # cs)) = Some idx" by simp
    from run_pos_mono[OF this] show ?thesis
      by (auto simp: accept_def start_def)
  qed
qed

text \<open>
  \<^verbatim>\<open>FindAllStringSubmatchIndex(s, -1)\<close>: the successive non-overlapping matches, each
  search starting where the previous match ended; an empty match next to the previous match
  is dropped and the search moves one byte on.
\<close>

function allMatches :: "re \<Rightarrow> string \<Rightarrow> nat \<Rightarrow> int \<Rightarrow> int list list" where
  "allMatches r s p prevMatchEnd =
     (if length s < p then []
      else case execute r (int p) (drop p s) of
        None \<Rightarrow> []
      | Some m \<Rightarrow>
          if m ! 1 = int p then
            (if m ! 0 = prevMatchEnd then allMatches r s (Suc p) (m ! 1)
             else m # allMatches r s (Suc p) (m ! 1))
          else m # allMatches r s (nat (m ! 1)) (m ! 1))"
  by pat_completeness auto
termination
proof (relation "measure (\<lambda>(r, s, p, e). Suc (length s) - p)")
  fix r :: re and s :: string and p :: nat and prevMatchEnd :: int and m :: "int list"
  assume le: "\<not> length s < p" and ex: "execute r (int p) (drop p s) = Some m"
    and ne: "m ! 1 \<noteq> int p"
  from execute_bounds[OF ex] ne have "p < nat (m ! 1)" by linarith
  with le show "((r, s, nat (m ! 1), m ! 1), (r, s, p, prevMatchEnd)) \<in> measure (\<lambda>(r, s, p, e). Suc (length s) - p)"
    by simp
qed auto

definition FindAllStringSubmatchIndex :: "re \<Rightarrow> string \<Rightarrow> int list list" where
  "FindAllStringSubmatchIndex r s = allMatches r s 0 (- 1)"


section \<open>The grammar table\<close>

text \<open>
  The entries of \<^verbatim>\<open>parserStrings\<close> that \<^verbatim>\<open>Parse\<close> consults, each written out as
  the syntax tree Go's parser builds. Capture groups are numbered by their opening
  parenthesis, named or not; a counted repetition \<^verbatim>\<open>x{n,m}\<close> is \<open>n\<close> copies of
  \<^verbatim>\<open>x\<close> followed by \<open>m - n\<close> nested optional ones.
\<close>

definition re_type :: re where
  \<comment> \<open>\<^verbatim>\<open>^(?P<type>METAR|SPECI)?\s+\<close>\<close>
  "re_type = Seq Bol (Seq (opt (Grp 1 (lits [''METAR'', ''SPECI'']))) spaces)"

definition re_station :: re where
  \<comment> \<open>\<^verbatim>\<open>^(?P<station>[A-Z][A-Z0-9]{3})\s+\<close>\<close>
  "re_station =
     Seq Bol (Seq (Grp 1 (Seq upper (rep 3 3 (Cls ''ABCDEFGHIJKLMNOPQRSTUVWXYZ0123456789''))))
       spaces)"

definition re_time :: re where
  \<comment> \<open>\<^verbatim>\<open>^(?P<day>\d\d)(?P<hour>\d\d)(?P<min>\d\d)Z?\s+\<close>\<close>
  "re_time =
     Seq Bol (Seq (Grp 1 (Seq digit digit)) (Seq (Grp 2 (Seq digit digit))
       (Seq (Grp 3 (Seq digit digit)) (Seq (opt (lit ''Z'')) spaces))))"

definition re_modifier :: re where
  \<comment> \<open>\<^verbatim>\<open>^(?P<mod>AUTO|FINO|NIL|TEST|CORR?|RTD|CC[A-G])\s+\<close>\<close>
  "re_modifier =
     Seq Bol (Seq (Grp 1 (alts [lit ''AUTO'', lit ''FINO'', lit ''NIL'', lit ''TEST'',
         Seq (lit ''COR'') (opt (lit ''R'')), lit ''RTD'', Seq (lit ''CC'') (Cls ''ABCDEFG'')]))
       spaces)"

text \<open>
  The wind pattern is
  \<^verbatim>\<open>^(?P<dir>\d{3}|0|///|MMM|VRB)(?P<speed>P?[\dO]{2,3}|[/M]{2,3})\<close>
  \<^verbatim>\<open>(?P<gust>G(\d{1,3}|[/M]{1,3}))?(?P<units>KT|KMH|MPS)?\<close>
  \<^verbatim>\<open>(\s+(?P<varfrom>\d\d\d)V(?P<varto>\d\d\d))?\s+\<close>; its head (direction to units) and
  its tail (the variable range and the closing blanks) are named apart.
\<close>

definition wind_head :: re where
  "wind_head =
     Seq (Grp 1 (alts [rep 3 3 digit, lit ''0'', lit ''///'', lit ''MMM'', lit ''VRB'']))
      (Seq (Grp 2 (alts [Seq (opt (lit ''P'')) (rep 2 3 (Cls ''0123456789O'')), rep 2 3 (Cls ''/M'')]))
      (Seq (opt (Grp 3 (Seq (lit ''G'') (Grp 4 (alts [rep 1 3 digit, rep 1 3 (Cls ''/M'')])))))
        (opt (Grp 5 (lits [''KT'', ''KMH'', ''MPS''])))))"

definition wind_tail :: re where
  "wind_tail =
     Seq (opt (Grp 6 (Seq spaces (Seq (Grp 7 (rep 3 3 digit))
            (Seq (lit ''V'') (Grp 8 (rep 3 3 digit)))))))
       spaces"

definition re_wind :: re where
  "re_wind = Seq Bol (Seq wind_head wind_tail)"

text \<open>
  The visibility pattern is
  \<^verbatim>\<open>(?P<vis>(?P<dist>(M|P)?\d\d\d\d)(?P<dir>[NSEW][EW]?|NDV)?\<close>
  \<^verbatim>\<open>|(?P<distu>(M|P)?(\d+))(?P<units>SM|KM|M|U)?|CAVOK)\s+\<close>.
\<close>

definition vis_dist :: re where
  "vis_dist =
     Seq (Grp 2 (Seq (opt (Grp 3 (lits [''M'', ''P'']))) (rep 4 4 digit)))
       (opt (Grp 4 (alts [Seq (Cls ''NSEW'') (opt (Cls ''EW'')), lit ''NDV''])))"

definition vis_distu :: re where
  "vis_distu =
     Seq (Grp 5 (Seq (opt (Grp 6 (lits [''M'', ''P'']))) (Grp 7 (plus digit))))
       (opt (Grp 8 (lits [''SM'', ''KM'', ''M'', ''U''])))"

definition re_visibility :: re where
  "re_visibility = Seq (Grp 1 (alts [vis_dist, vis_distu, lit ''CAVOK''])) spaces"

definition obsc :: re where
  \<comment> \<open>\<^verbatim>\<open>BR|FG|FU|VA|DU|SA|HZ|PY\<close>\<close>
  "obsc = lits [''BR'', ''FG'', ''FU'', ''VA'', ''DU'', ''SA'', ''HZ'', ''PY'']"

definition other :: re where
  \<comment> \<open>\<^verbatim>\<open>PO|SQ|FC|SS|DS\<close>\<close>
  "other = lits [''PO'', ''SQ'', ''FC'', ''SS'', ''DS'']"

text \<open>
  The weather pattern is
  \<^verbatim>\<open>(?P<int>(-|\+|VC)+)?(?P<desc>(MI|PR|BC|DR|BL|SH|TS|FZ)+)?\<close>
  \<^verbatim>\<open>(:?(?P<prec>(DZ|RA|SN|SG|IC|PL|GR|GS|UP)+)(?P<obsc>...)?(?P<other>...)?\<close>
  \<^verbatim>\<open>|(?P<obsc>...)(?P<other>...)?|(?P<other>...))+\s+\<close>.
  The fifth parenthesis opens with \<^verbatim>\<open>(:?\<close>, not \<^verbatim>\<open>(?:\<close>: Go reads a capturing
  group whose first alternative starts with an optional colon. Groups are therefore
  1 int, 3 desc, 5 the whole alternation, 6 prec, 8 and 10 obsc, 9, 11 and 12 other.
\<close>

definition wx_intensity :: re where
  "wx_intensity = opt (Grp 1 (plus (Grp 2 (lits [''-'', ''+'', ''VC'']))))"

definition wx_descriptor :: re where
  "wx_descriptor =
     opt (Grp 3 (plus (Grp 4 (lits [''MI'', ''PR'', ''BC'', ''DR'', ''BL'', ''SH'', ''TS'', ''FZ'']))))"

definition wx_phenomena :: re where
  "wx_phenomena =
     alts [
       Seq (opt (lit '':''))
        (Seq (Grp 6 (plus (Grp 7 (lits [''DZ'', ''RA'', ''SN'', ''SG'', ''IC'', ''PL'', ''GR'', ''GS'', ''UP'']))))
        (Seq (opt (Grp 8 obsc)) (opt (Grp 9 other)))),
       Seq (Grp 10 obsc) (opt (Grp 11 other)),
       Grp 12 other]"

definition re_weather :: re where
  "re_weather = Seq wx_intensity (Seq wx_descriptor (Seq (plus (Grp 5 wx_phenomena)) spaces))"

definition re_sky :: re where
  \<comment> \<open>\<^verbatim>\<open>(?P<cover>VV|CLR|SKC|SCK|NSC|NCD|BKN|SCT|FEW|OVC)(?P<height>\d{2,4})?\<close>
      \<^verbatim>\<open>(?P<cloud>([A-Z][A-Z]+))?\s+\<close>\<close>
  "re_sky =
     Seq (Grp 1 (lits [''VV'', ''CLR'', ''SKC'', ''SCK'', ''NSC'', ''NCD'', ''BKN'', ''SCT'', ''FEW'', ''OVC'']))
      (Seq (opt (Grp 2 (rep 2 4 digit)))
      (Seq (opt (Grp 3 (Grp 4 (Seq upper (plus upper)))))
        spaces))"

text \<open>
  The temperature pattern is
  \<^verbatim>\<open>^(?P<temp>(M|-)?\d+|//|XX|MM)/(?P<dewpt>(M|-)?\d+|//|XX|MM)?\s+\<close>; the value
  alternatives are the same for both groups, with the sign in group \<open>g + 1\<close>.
\<close>

definition temp_value :: "nat \<Rightarrow> re" where
  "temp_value g =
     Grp g (alts [Seq (opt (Grp (g + 1) (lits [''M'', ''-'']))) (plus digit),
       lit ''//'', lit ''XX'', lit ''MM''])"

definition re_temp :: re where
  "re_temp = Seq Bol (Seq (temp_value 1) (Seq (lit ''/'') (Seq (opt (temp_value 3)) spaces)))"

text \<open>
  The pressure pattern is
  \<^verbatim>\<open>^(?P<unit>A|Q|QNH|SLP)?(?P<press>\d{3,4}|////)(?P<unit2>INS)?\s*\<close>.
\<close>

definition press_unit :: re where
  "press_unit = opt (Grp 1 (lits [''A'', ''Q'', ''QNH'', ''SLP'']))"

definition press_value :: re where
  "press_value = Grp 2 (alts [rep 3 4 digit, lit ''////''])"

definition press_tail :: re where
  "press_tail = Seq (opt (Grp 3 (lit ''INS''))) (Star space)"

definition re_press :: re where
  "re_press = Seq Bol (Seq press_unit (Seq press_value press_tail))"

section \<open>Strings, integers and time as the Go runtime has them\<close>

text \<open>
  A slice expression \<^verbatim>\<open>s[a:b]\<close> panics unless \<open>0 \<le> a \<le> b \<le> len(s)\<close>; the model
  returns \<open>None\<close> for the panic.
\<close>

definition slice :: "string \<Rightarrow> int \<Rightarrow> int \<Rightarrow> string option" where
  "slice s a b =
     (if 0 \<le> a \<and> a \<le> b \<and> b \<le> int (length s) then Some (take (nat b - nat a) (drop (nat a) s))
      else None)"

definition slice_from :: "string \<Rightarrow> int \<Rightarrow> string option" where
  "slice_from s a = (if 0 \<le> a \<and> a \<le> int (length s) then Some (drop (nat a) s) else None)"

definition isDigit :: "char \<Rightarrow> bool" where
  "isDigit c = (c \<in> set ''0123456789'')"

definition digitVal :: "char \<Rightarrow> int" where
  "digitVal c = int (of_char c) - 48"

definition decimal :: "string \<Rightarrow> int" where
  "decimal ds = foldl (\<lambda>n c. n * 10 + digitVal c) 0 ds"

text \<open>
  \<^verbatim>\<open>strconv.Atoi\<close> on a 64-bit platform: an optional sign, then one or more decimal
  digits, and the value must fit \<^verbatim>\<open>int\<close>. \<open>None\<close> is a non-nil error.
\<close>

definition Atoi :: "string \<Rightarrow> int option" where
  "Atoi s =
     (let neg = (case s of [] \<Rightarrow> False | c # r \<Rightarrow> c = CHR ''-'');
          ds = (case s of [] \<Rightarrow> [] | c # r \<Rightarrow> if c = CHR ''-'' \<or> c = CHR ''+'' then r else s)
      in if ds = [] then None
         else if list_all isDigit ds then
           (let n = (if neg then - decimal ds else decimal ds)
            in if - (2 ^ 63) \<le> n \<and> n < 2 ^ 63 then Some n else None)
         else None)"

text \<open>
  \<^verbatim>\<open>time.Parse(dateFormat, value)\<close> for the one layout the program uses,
  \<^verbatim>\<open>"2006/01/02 15:04"\<close>: a four-digit year, a two-digit month, a two-digit day, one or
  more blanks, an hour of one or two digits, a two-digit minute and nothing after; the
  month, day, hour and minute must be in range. The result carries the fields the program
  reads with \<^verbatim>\<open>t.Year()\<close> and \<^verbatim>\<open>t.Month()\<close>.
\<close>

record civil =
  Year :: int
  Month :: int
  Day :: int
  Hour :: int
  Minute :: int

definition getnum :: "string \<Rightarrow> bool \<Rightarrow> (int \<times> string) option" where
  "getnum s fixed =
     (case s of
        [] \<Rightarrow> None
      | c # r \<Rightarrow>
          if isDigit c then
            (case r of
               [] \<Rightarrow> if fixed then None else Some (digitVal c, r)
             | d # r' \<Rightarrow>
                 if isDigit d then Some (digitVal c * 10 + digitVal d, r')
                 else if fixed then None else Some (digitVal c, r))
          else None)"

definition skip :: "string \<Rightarrow> char \<Rightarrow> string option" where
  "skip v c =
     (if c = CHR '' '' then
        (case v of
           [] \<Rightarrow> Some []
         | x # r \<Rightarrow> if x = CHR '' '' then Some (dropWhile (\<lambda>y. y = CHR '' '') v) else None)
      else
        (case v of [] \<Rightarrow> None | x # r \<Rightarrow> if x = c then Some r else None))"

definition isLeap :: "int \<Rightarrow> bool" where
  "isLeap y = (y mod 4 = 0 \<and> (y mod 400 = 0 \<or> y mod 100 \<noteq> 0))"

definition daysIn :: "int \<Rightarrow> int \<Rightarrow> int" where
  "daysIn m y =
     (if m = 2 then (if isLeap y then 29 else 28)
      else if m = 4 \<or> m = 6 \<or> m = 9 \<or> m = 11 then 30 else 31)"

definition time_Parse :: "string \<Rightarrow> civil option" where
  "time_Parse v0 =
     (if length v0 < 4 \<or> \<not> list_all isDigit (take 4 v0) then None
      else let y = decimal (take 4 v0) in
        case skip (drop 4 v0) (CHR ''/'') of None \<Rightarrow> None | Some v1 \<Rightarrow>
        case getnum v1 True of None \<Rightarrow> None | Some (mo, v2) \<Rightarrow>
        if mo \<le> 0 \<or> 12 < mo then None else
        case skip v2 (CHR ''/'') of None \<Rightarrow> None | Some v3 \<Rightarrow>
        case getnum v3 True of None \<Rightarrow> None | Some (d, v4) \<Rightarrow>
        case skip v4 (CHR '' '') of None \<Rightarrow> None | Some v5 \<Rightarrow>
        case getnum v5 False of None \<Rightarrow> None | Some (h, v6) \<Rightarrow>
        if 24 \<le> h then None else
        case skip v6 (CHR '':'') of None \<Rightarrow> None | Some v7 \<Rightarrow>
        case getnum v7 True of None \<Rightarrow> None | Some (mi, v8) \<Rightarrow>
        if 60 \<le> mi then None
        else if v8 = [] then
          (if d < 1 \<or> daysIn mo y < d then None
           else Some \<lparr>Year = y, Month = mo, Day = d, Hour = h, Minute = mi\<rparr>)
        else None)"

text \<open>
  \<^verbatim>\<open>time.Date(year, month, day, hour, min, 0, 0, time.UTC)\<close> as the instant it denotes:
  seconds since 1970-01-01T00:00:00Z. Go lets the day, hour and minute run outside their
  usual ranges and carries the excess over, which is what the linear sum does.
\<close>

definition daysSinceEpoch :: "int \<Rightarrow> int" where
  "daysSinceEpoch y =
     365 * (y - 1970) + ((y - 1) div 4 - (y - 1) div 100 + (y - 1) div 400) - 477"

definition daysBefore :: "int \<Rightarrow> int" where
  "daysBefore m = [0, 31, 59, 90, 120, 151, 181, 212, 243, 273, 304, 334] ! nat (m - 1)"

definition Date :: "int \<Rightarrow> int \<Rightarrow> int \<Rightarrow> int \<Rightarrow> int \<Rightarrow> int" where
  "Date y m d h mi =
     (daysSinceEpoch y + daysBefore m + (if isLeap y \<and> 3 \<le> m then 1 else 0) + (d - 1)) * 86400
       + h * 3600 + mi * 60"


section \<open>The decoder\<close>

record Wind =
  Vrb :: bool
  Dir :: int
  Spd :: int
  Gust :: int
  VarFrom :: int
  VarTo :: int

record Weather =
  Intens :: string
  Descr :: string
  Precip :: string
  Other :: string

record Sky =
  Cover :: string
  Height :: int
  Cloud :: string

text \<open>
  \<^verbatim>\<open>Time\<close> is the instant in seconds since 1970-01-01T00:00:00Z; the \<^verbatim>\<open>int\<close> fields
  hold what \<^verbatim>\<open>Atoi\<close> returned, which fits 64 bits.
\<close>

record Metar =
  Station :: string
  Time :: int
  Mod :: string
  Wind :: Wind
  Visibility :: int
  Weather :: "Weather list"
  Sky :: "Sky list"
  Temp :: int
  DewPt :: int
  Pressure :: int

text \<open>
  \<^verbatim>\<open>Parse\<close> has a pointer receiver and writes each field into the caller's record as soon
  as it is decoded. A call ends by returning \<^verbatim>\<open>nil\<close>, by returning an error made with
  \<^verbatim>\<open>fmt.Errorf\<close>, or by a run-time panic of a slice expression. The model returns the
  record as the call leaves it together with how the call ended.
\<close>

datatype outcome = nil | Errorf string | panic

text \<open>
  The guarded reads of a capture group, as the source repeats them:
  \<^verbatim>\<open>if idx[a] != -1 && idx[a+1] != -1 { x = rawMetar[idx[a]:idx[a+1]] }\<close> leaves the zero
  value when the group is absent (\<open>None\<close> is the panic of the slice), and the same with
  \<^verbatim>\<open>strconv.Atoi\<close> around the slice returns the error \<open>msg\<close> when the conversion fails.
\<close>

definition captured :: "string \<Rightarrow> int list \<Rightarrow> nat \<Rightarrow> string option" where
  "captured raw idx a =
     (if idx ! a \<noteq> - 1 \<and> idx ! (a + 1) \<noteq> - 1 then slice raw (idx ! a) (idx ! (a + 1))
      else Some [])"

definition converted :: "string \<Rightarrow> int list \<Rightarrow> nat \<Rightarrow> string \<Rightarrow> outcome + int" where
  "converted raw idx a msg =
     (if idx ! a \<noteq> - 1 \<and> idx ! (a + 1) \<noteq> - 1 then
        (case slice raw (idx ! a) (idx ! (a + 1)) of
           None \<Rightarrow> Inl panic
         | Some t \<Rightarrow> (case Atoi t of Some v \<Rightarrow> Inr v | None \<Rightarrow> Inl (Errorf msg)))
      else Inr 0)"

text \<open>
  Each step takes the record and the unconsumed text; \<open>Inl\<close> is the end of the call,
  \<open>Inr\<close> goes on to the next step.
\<close>

type_synonym cursor = "Metar \<times> string"

definition advance :: "Metar \<Rightarrow> string \<Rightarrow> int list \<Rightarrow> (Metar \<times> outcome) + cursor" where
  \<comment> \<open>\<^verbatim>\<open>rawMetar = rawMetar[idx[1]:]\<close>\<close>
  "advance m raw idx =
     (case slice_from raw (idx ! 1) of None \<Rightarrow> Inl (m, panic) | Some raw' \<Rightarrow> Inr (m, raw'))"

definition parse_type :: "cursor \<Rightarrow> (Metar \<times> outcome) + cursor" where
  \<comment> \<open>lines 70-73\<close>
  "parse_type = (\<lambda>(m, raw).
     case FindStringSubmatchIndex re_type raw of
       None \<Rightarrow> Inr (m, raw)
     | Some idx \<Rightarrow> advance m raw idx)"

definition parse_station :: "cursor \<Rightarrow> (Metar \<times> outcome) + cursor" where
  \<comment> \<open>lines 75-81\<close>
  "parse_station = (\<lambda>(m, raw).
     case FindStringSubmatchIndex re_station raw of
       None \<Rightarrow> Inl (m, Errorf ''Error parsing station identifier'')
     | Some idx \<Rightarrow>
         (case slice raw (idx ! 2) (idx ! 3) of
            None \<Rightarrow> Inl (m, panic)
          | Some st \<Rightarrow> advance (m\<lparr>Station := st\<rparr>) raw idx))"

definition parse_time :: "string \<Rightarrow> cursor \<Rightarrow> (Metar \<times> outcome) + cursor" where
  \<comment> \<open>lines 83-104\<close>
  "parse_time rawDate = (\<lambda>(m, raw).
     case FindStringSubmatchIndex re_time raw of
       None \<Rightarrow> Inl (m, Errorf ''Error parsing metar time'')
     | Some idx \<Rightarrow>
         (case time_Parse rawDate of
            None \<Rightarrow> Inl (m, Errorf ''Error parsing message time'')
          | Some t \<Rightarrow>
         (case slice raw (idx ! 2) (idx ! 3) of None \<Rightarrow> Inl (m, panic) | Some sd \<Rightarrow>
         (case Atoi sd of None \<Rightarrow> Inl (m, Errorf ''Error converting day in metar'') | Some day \<Rightarrow>
         (case slice raw (idx ! 4) (idx ! 5) of None \<Rightarrow> Inl (m, panic) | Some sh \<Rightarrow>
         (case Atoi sh of None \<Rightarrow> Inl (m, Errorf ''Error converting hour in metar'') | Some hour \<Rightarrow>
         (case slice raw (idx ! 6) (idx ! 7) of None \<Rightarrow> Inl (m, panic) | Some sm \<Rightarrow>
         (case Atoi sm of None \<Rightarrow> Inl (m, Errorf ''Error converting minute in metar'') | Some minute \<Rightarrow>
            advance (m\<lparr>Time := Date (Year t) (Month t) day hour minute\<rparr>) raw idx))))))))"

definition parse_modifier :: "cursor \<Rightarrow> (Metar \<times> outcome) + cursor" where
  \<comment> \<open>lines 106-110\<close>
  "parse_modifier = (\<lambda>(m, raw).
     case FindStringSubmatchIndex re_modifier raw of
       None \<Rightarrow> Inr (m, raw)
     | Some idx \<Rightarrow>
         (case slice raw (idx ! 2) (idx ! 3) of
            None \<Rightarrow> Inl (m, panic)
          | Some md \<Rightarrow> advance (m\<lparr>Mod := md\<rparr>) raw idx))"

definition wind_dir :: "string \<Rightarrow> int list \<Rightarrow> outcome + (bool \<times> int)" where
  \<comment> \<open>lines 118-128: the variable flag and the direction\<close>
  "wind_dir raw idx =
     (if idx ! 2 \<noteq> - 1 \<and> idx ! 3 \<noteq> - 1 then
        (case slice raw (idx ! 2) (idx ! 3) of
           None \<Rightarrow> Inl panic
         | Some d \<Rightarrow>
             if d = ''VRB'' then Inr (True, 0)
             else (case Atoi d of
                     Some wdir \<Rightarrow> Inr (False, wdir)
                   | None \<Rightarrow> Inl (Errorf ''Error converting wind direction in metar'')))
      else Inr (False, 0))"

definition wind_of :: "string \<Rightarrow> int list \<Rightarrow> outcome + Wind" where
  \<comment> \<open>lines 117-159\<close>
  "wind_of raw idx =
     (case wind_dir raw idx of Inl e \<Rightarrow> Inl e | Inr (vrb, dir) \<Rightarrow>
     (case converted raw idx 4 ''Error converting wind speed in metar'' of
        Inl e \<Rightarrow> Inl e | Inr spd \<Rightarrow>
     (case converted raw idx 8 ''Error converting gust speed in metar'' of
        Inl e \<Rightarrow> Inl e | Inr gust \<Rightarrow>
     (case converted raw idx 14 ''Error converting variable from wind direction in metar'' of
        Inl e \<Rightarrow> Inl e | Inr vfrom \<Rightarrow>
     (case converted raw idx 16 ''Error converting variable to wind direction in metar'' of
        Inl e \<Rightarrow> Inl e | Inr vto \<Rightarrow>
          Inr \<lparr>Vrb = vrb, Dir = dir, Spd = spd, Gust = gust, VarFrom = vfrom, VarTo = vto\<rparr>)))))"

definition parse_wind :: "cursor \<Rightarrow> (Metar \<times> outcome) + cursor" where
  \<comment> \<open>lines 112-161\<close>
  "parse_wind = (\<lambda>(m, raw).
     case FindStringSubmatchIndex re_wind raw of
       None \<Rightarrow> Inl (m, Errorf ''Error parsing metar wind'')
     | Some idx \<Rightarrow>
         (case wind_of raw idx of
            Inl e \<Rightarrow> Inl (m, e)
          | Inr wind \<Rightarrow> advance (m\<lparr>Wind := wind\<rparr>) raw idx))"

definition parse_visibility :: "cursor \<Rightarrow> (Metar \<times> outcome) + cursor" where
  \<comment> \<open>lines 163-173\<close>
  "parse_visibility = (\<lambda>(m, raw).
     case FindStringSubmatchIndex re_visibility raw of
       None \<Rightarrow> Inl (m, Errorf ''Error parsing metar visibility'')
     | Some idx \<Rightarrow>
         if idx ! 4 = - 1 \<or> idx ! 5 = - 1 then Inl (m, Errorf ''Error parsing metar visibility'')
         else
           (case slice raw (idx ! 4) (idx ! 5) of
              None \<Rightarrow> Inl (m, panic)
            | Some t \<Rightarrow>
                (case Atoi t of
                   Some vis \<Rightarrow> advance (m\<lparr>Visibility := vis\<rparr>) raw idx
                 | None \<Rightarrow> Inl (m, Errorf ''Error converting visibility value in metar''))))"

definition weather_of :: "string \<Rightarrow> int list \<Rightarrow> Weather option" where
  \<comment> \<open>lines 178-190\<close>
  "weather_of raw idx =
     (case captured raw idx 2 of None \<Rightarrow> None | Some i \<Rightarrow>
     (case captured raw idx 6 of None \<Rightarrow> None | Some d \<Rightarrow>
     (case captured raw idx 10 of None \<Rightarrow> None | Some p \<Rightarrow>
     (case captured raw idx 16 of None \<Rightarrow> None | Some ot \<Rightarrow>
        Some \<lparr>Intens = i, Descr = d, Precip = p, Other = ot\<rparr>))))"

primrec weather_loop :: "string \<Rightarrow> int list list \<Rightarrow> Metar \<Rightarrow> (Metar \<times> outcome) + Metar" where
  \<comment> \<open>lines 177-192\<close>
  "weather_loop raw [] m = Inr m"
| "weather_loop raw (idx # idxs) m =
     (case weather_of raw idx of
        None \<Rightarrow> Inl (m, panic)
      | Some w \<Rightarrow> weather_loop raw idxs (m\<lparr>Weather := Weather m @ [w]\<rparr>))"

definition parse_weather :: "cursor \<Rightarrow> (Metar \<times> outcome) + cursor" where
  \<comment> \<open>lines 175-194; after the loop \<^verbatim>\<open>idx\<close> is the last match\<close>
  "parse_weather = (\<lambda>(m, raw).
     case FindAllStringSubmatchIndex re_weather raw of
       [] \<Rightarrow> Inr (m, raw)
     | idx # idxs \<Rightarrow>
         (case weather_loop raw (idx # idxs) m of
            Inl r \<Rightarrow> Inl r
          | Inr m' \<Rightarrow> advance m' raw (last (idx # idxs))))"

definition sky_of :: "string \<Rightarrow> int list \<Rightarrow> outcome + Sky" where
  \<comment> \<open>lines 201-215\<close>
  "sky_of raw idx =
     (case captured raw idx 2 of None \<Rightarrow> Inl panic | Some c \<Rightarrow>
     (case converted raw idx 4 ''Error converting cloud height value in metar'' of
        Inl e \<Rightarrow> Inl e | Inr h \<Rightarrow>
     (case captured raw idx 6 of None \<Rightarrow> Inl panic | Some cl \<Rightarrow>
        Inr \<lparr>Cover = c, Height = h, Cloud = cl\<rparr>)))"

primrec sky_loop :: "string \<Rightarrow> int list list \<Rightarrow> Metar \<Rightarrow> (Metar \<times> outcome) + Metar" where
  \<comment> \<open>lines 200-217\<close>
  "sky_loop raw [] m = Inr m"
| "sky_loop raw (idx # idxs) m =
     (case sky_of raw idx of
        Inl e \<Rightarrow> Inl (m, e)
      | Inr sky \<Rightarrow> sky_loop raw idxs (m\<lparr>Sky := Sky m @ [sky]\<rparr>))"

definition parse_sky :: "cursor \<Rightarrow> (Metar \<times> outcome) + cursor" where
  \<comment> \<open>lines 196-218\<close>
  "parse_sky = (\<lambda>(m, raw).
     case FindAllStringSubmatchIndex re_sky raw of
       [] \<Rightarrow> Inl (m, Errorf ''Error parsing metar sky'')
     | idx # idxs \<Rightarrow>
         (case sky_loop raw (idx # idxs) m of
            Inl r \<Rightarrow> Inl r
          | Inr m' \<Rightarrow> advance m' raw (last (idx # idxs))))"

definition signed :: "string \<Rightarrow> int list \<Rightarrow> nat \<Rightarrow> string \<Rightarrow> string option" where
  \<comment> \<open>lines 226-228 and 236-238: a captured sign \<^verbatim>\<open>M\<close> is replaced by \<^verbatim>\<open>-\<close>\<close>
  "signed raw idx a str =
     (if idx ! a \<noteq> - 1 \<and> idx ! (a + 1) \<noteq> - 1 then
        (case slice raw (idx ! a) (idx ! (a + 1)) of
           None \<Rightarrow> None
         | Some sg \<Rightarrow>
             if sg = ''M'' then
               (case slice_from str 1 of None \<Rightarrow> None | Some r \<Rightarrow> Some (''-'' @ r))
             else Some str)
      else Some str)"

definition parse_temp :: "cursor \<Rightarrow> (Metar \<times> outcome) + cursor" where
  \<comment> \<open>lines 220-244\<close>
  "parse_temp = (\<lambda>(m, raw).
     case FindStringSubmatchIndex re_temp raw of
       None \<Rightarrow> Inl (m, Errorf ''Error parsing metar temperature'')
     | Some idx \<Rightarrow>
         (case slice raw (idx ! 2) (idx ! 3) of None \<Rightarrow> Inl (m, panic) | Some s1 \<Rightarrow>
         (case signed raw idx 4 s1 of None \<Rightarrow> Inl (m, panic) | Some tempStr \<Rightarrow>
         (case Atoi tempStr of
            None \<Rightarrow> Inl (m, Errorf ''Error converting temperature value in metar'')
          | Some temp \<Rightarrow>
         (case slice raw (idx ! 6) (idx ! 7) of
            None \<Rightarrow> Inl (m\<lparr>Temp := temp\<rparr>, panic) | Some s2 \<Rightarrow>
         (case signed raw idx 8 s2 of
            None \<Rightarrow> Inl (m\<lparr>Temp := temp\<rparr>, panic) | Some dewPtStr \<Rightarrow>
         (case Atoi dewPtStr of
            None \<Rightarrow> Inl (m\<lparr>Temp := temp\<rparr>, Errorf ''Error converting dew point value in metar'')
          | Some dewPt \<Rightarrow> advance (m\<lparr>Temp := temp, DewPt := dewPt\<rparr>) raw idx)))))))"

definition parse_press :: "cursor \<Rightarrow> (Metar \<times> outcome) + cursor" where
  \<comment> \<open>lines 246-258\<close>
  "parse_press = (\<lambda>(m, raw).
     case FindStringSubmatchIndex re_press raw of
       None \<Rightarrow> Inl (m, Errorf ''Error parsing metar pressure'')
     | Some idx \<Rightarrow>
         if idx ! 2 \<noteq> - 1 \<and> idx ! 3 \<noteq> - 1 then
           (case slice raw (idx ! 2) (idx ! 3) of
              None \<Rightarrow> Inl (m, panic)
            | Some u \<Rightarrow>
                if u = ''Q'' then
                  (case slice raw (idx ! 4) (idx ! 5) of
                     None \<Rightarrow> Inl (m, panic)
                   | Some t \<Rightarrow>
                       (case Atoi t of
                          Some v \<Rightarrow> Inr (m\<lparr>Pressure := v\<rparr>, raw)
                        | None \<Rightarrow> Inl (m, Errorf ''Error converting pressure value in metar'')))
                else Inl (m, Errorf ''Error interpreting metar pressure value''))
         else Inl (m, Errorf ''Error interpreting metar pressure value''))"

definition andThen :: "(Metar \<times> outcome) + cursor \<Rightarrow> (cursor \<Rightarrow> (Metar \<times> outcome) + cursor) \<Rightarrow>
    (Metar \<times> outcome) + cursor" where
  "andThen x f = (case x of Inl r \<Rightarrow> Inl r | Inr c \<Rightarrow> f c)"

text \<open>
  \<^verbatim>\<open>Parse\<close> runs the ten steps in order. \<open>through_x\<close> is the call up to and including step
  \<open>x\<close>: either it has ended there (\<open>Inl\<close>), or it goes on with the record as written so
  far and the text not yet consumed (\<open>Inr\<close>).
\<close>

definition through_station :: "Metar \<Rightarrow> string \<Rightarrow> (Metar \<times> outcome) + cursor" where
  "through_station m rawMetar = andThen (parse_type (m, rawMetar)) parse_station"

definition through_time :: "Metar \<Rightarrow> string \<Rightarrow> string \<Rightarrow> (Metar \<times> outcome) + cursor" where
  "through_time m rawMetar rawDate = andThen (through_station m rawMetar) (parse_time rawDate)"

definition through_modifier :: "Metar \<Rightarrow> string \<Rightarrow> string \<Rightarrow> (Metar \<times> outcome) + cursor" where
  "through_modifier m rawMetar rawDate = andThen (through_time m rawMetar rawDate) parse_modifier"

definition through_wind :: "Metar \<Rightarrow> string \<Rightarrow> string \<Rightarrow> (Metar \<times> outcome) + cursor" where
  "through_wind m rawMetar rawDate = andThen (through_modifier m rawMetar rawDate) parse_wind"

definition through_visibility :: "Metar \<Rightarrow> string \<Rightarrow> string \<Rightarrow> (Metar \<times> outcome) + cursor" where
  "through_visibility m rawMetar rawDate =
     andThen (through_wind m rawMetar rawDate) parse_visibility"

definition through_weather :: "Metar \<Rightarrow> string \<Rightarrow> string \<Rightarrow> (Metar \<times> outcome) + cursor" where
  "through_weather m rawMetar rawDate =
     andThen (through_visibility m rawMetar rawDate) parse_weather"

definition through_sky :: "Metar \<Rightarrow> string \<Rightarrow> string \<Rightarrow> (Metar \<times> outcome) + cursor" where
  "through_sky m rawMetar rawDate = andThen (through_weather m rawMetar rawDate) parse_sky"

definition through_temp :: "Metar \<Rightarrow> string \<Rightarrow> string \<Rightarrow> (Metar \<times> outcome) + cursor" where
  "through_temp m rawMetar rawDate = andThen (through_sky m rawMetar rawDate) parse_temp"

definition Parse :: "Metar \<Rightarrow> string \<Rightarrow> string \<Rightarrow> Metar \<times> outcome" where
  "Parse m rawMetar rawDate =
     (case andThen (through_temp m rawMetar rawDate) parse_press of
        Inl r \<Rightarrow> r
      | Inr (m', raw) \<Rightarrow> (m', nil))"

text \<open>The zero value \<^verbatim>\<open>Metar{}\<close> the handler passes; the zero time is 0001-01-01T00:00:00Z.\<close>

definition Metar0 :: Metar where
  "Metar0 = \<lparr>Station = [], Time = Date 1 1 1 0 0, Mod = [],
     Wind = \<lparr>Vrb = False, Dir = 0, Spd = 0, Gust = 0, VarFrom = 0, VarTo = 0\<rparr>,
     Visibility = 0, Weather = [], Sky = [], Temp = 0, DewPt = 0, Pressure = 0\<rparr>"


section \<open>The matcher against a declarative semantics\<close>

text \<open>
  \<open>sem r t t'\<close>: the pattern \<open>r\<close> can take a thread from \<open>t\<close> to \<open>t'\<close>. The matcher
  returns what its continuation returns on one such \<open>t'\<close> (soundness), and it returns
  something whenever the continuation succeeds on one of them (completeness). Which of
  them it is, the priorities decide; the lemmas below are used where every candidate has
  the property wanted.
\<close>

inductive iter :: "(thread \<Rightarrow> thread \<Rightarrow> bool) \<Rightarrow> thread \<Rightarrow> thread \<Rightarrow> bool" for R where
  iter_done: "iter R t t"
| iter_step: "R t u \<Longrightarrow> length (rest u) < length (rest t) \<Longrightarrow> iter R u t' \<Longrightarrow> iter R t t'"

primrec sem :: "re \<Rightarrow> thread \<Rightarrow> thread \<Rightarrow> bool" where
  "sem Eps t t' = (t' = t)"
| "sem Bol t t' = (pos t = 0 \<and> t' = t)"
| "sem (Cls cs) t t' =
     (\<exists>c r. rest t = c # r \<and> c \<in> set cs \<and> t' = t\<lparr>pos := pos t + 1, rest := r\<rparr>)"
| "sem (Seq a b) t t' = (\<exists>u. sem a t u \<and> sem b u t')"
| "sem (Alt a b) t t' = (sem a t t' \<or> sem b t t')"
| "sem (Star a) t t' = iter (sem a) t t'"
| "sem (Grp n a) t t' =
     (\<exists>u. sem a t u \<and> t' = u\<lparr>caps := (caps u)[2 * n := pos t, 2 * n + 1 := pos u]\<rparr>)"

lemma star_sound:
  assumes body: "\<And>k t x. f k t = Some x \<Longrightarrow> \<exists>t'. R t t' \<and> k t' = Some x"
  shows "star f k n t = Some x \<Longrightarrow> \<exists>t'. iter R t t' \<and> k t' = Some x"
proof (induction n arbitrary: t)
  case 0
  then show ?case by (auto intro: iter_done)
next
  case (Suc n)
  let ?c = "\<lambda>t'. if length (rest t') < length (rest t) then star f k n t' else None"
  show ?case
  proof (cases "f ?c t")
    case None
    with Suc.prems have "k t = Some x" by simp
    then show ?thesis by (auto intro: iter_done)
  next
    case (Some y)
    with Suc.prems have "f ?c t = Some x" by simp
    from body[OF this] obtain u where u: "R t u" "?c u = Some x" by blast
    then have lt: "length (rest u) < length (rest t)" and "star f k n u = Some x"
      by (auto split: if_splits)
    from Suc.IH[OF this(2)] obtain t' where "iter R u t'" "k t' = Some x" by blast
    with u(1) lt show ?thesis by (auto intro: iter_step)
  qed
qed

lemma run_sound: "run r k t = Some x \<Longrightarrow> \<exists>t'. sem r t t' \<and> k t' = Some x"
proof (induction r arbitrary: k t x)
  case (Cls cs)
  then show ?case by (cases "rest t") (auto split: if_splits)
next
  case (Seq a b)
  from Seq.prems have "run a (run b k) t = Some x" by simp
  from Seq.IH(1)[OF this] obtain u where "sem a t u" "run b k u = Some x" by blast
  with Seq.IH(2) show ?case by fastforce
next
  case (Alt a b)
  then show ?case by (fastforce split: option.splits)
next
  case (Star a)
  from Star.prems have "star (run a) k (length (rest t)) t = Some x" by simp
  from star_sound[of "run a" "sem a", OF Star.IH this] show ?case by simp
next
  case (Grp n a)
  from Grp.prems Grp.IH show ?case by fastforce
qed (auto split: if_splits)

lemma star_complete:
  assumes body: "\<And>k t u x. R t u \<Longrightarrow> k u = Some x \<Longrightarrow> \<exists>y. f k t = Some y"
  shows "iter R t t' \<Longrightarrow> k t' = Some x \<Longrightarrow> length (rest t) \<le> n \<Longrightarrow> \<exists>y. star f k n t = Some y"
proof (induction arbitrary: n rule: iter.induct)
  case (iter_done t)
  then show ?case by (cases n) (auto split: option.splits)
next
  case (iter_step t u t')
  from iter_step.hyps(2) iter_step.prems(2) obtain n' where n: "n = Suc n'" "length (rest u) \<le> n'"
    by (cases n) auto
  from iter_step.IH[OF iter_step.prems(1) n(2)] obtain y where "star f k n' u = Some y" by blast
  with iter_step.hyps(2)
  have "(\<lambda>t'. if length (rest t') < length (rest t) then star f k n' t' else None) u = Some y"
    by simp
  from body[where k = "\<lambda>t'. if length (rest t') < length (rest t) then star f k n' t' else None"
      and t = t and u = u and x = y, OF iter_step.hyps(1) this] show ?case
    using n(1) by auto
qed

lemma run_complete:
  fixes k :: "thread \<Rightarrow> 'a option"
  shows "sem r t t' \<Longrightarrow> k t' = Some x \<Longrightarrow> \<exists>y. run r k t = Some y"
proof (induction r arbitrary: k t t' x)
  case (Seq a b)
  from Seq.prems obtain u where u: "sem a t u" "sem b u t'" by auto
  from Seq.IH(2)[where k = k and t = u and t' = t' and x = x, OF u(2) Seq.prems(2)]
  obtain y where "run b k u = Some y" by blast
  from Seq.IH(1)[where k = "run b k" and t = t and t' = u and x = y, OF u(1) this]
  show ?case by simp
next
  case (Alt a b)
  from Alt.prems(1) have "sem a t t' \<or> sem b t t'" by simp
  then show ?case
  proof
    assume "sem a t t'"
    from Alt.IH(1)[where k = k and t = t and t' = t' and x = x, OF this Alt.prems(2)]
    show ?thesis by auto
  next
    assume "sem b t t'"
    from Alt.IH(2)[where k = k and t = t and t' = t' and x = x, OF this Alt.prems(2)]
    show ?thesis by (cases "run a k t") auto
  qed
next
  case (Star a)
  have body: "\<exists>y. run a k t = Some y" if "sem a t u" "k u = Some x"
    for k :: "thread \<Rightarrow> 'a option" and t u and x :: 'a
    using Star.IH[where k = k and t = t and t' = u and x = x] that by blast
  from Star.prems(1) have "iter (sem a) t t'" by simp
  with body Star.prems(2) have "\<exists>y. star (run a) k (length (rest t)) t = Some y"
    using star_complete[where R = "sem a" and f = "run a" and k = k and t = t and t' = t' and x = x
        and n = "length (rest t)"]
    by blast
  then show ?case by simp
next
  case (Grp n a)
  from Grp.prems obtain u where u: "sem a t u"
    "t' = u\<lparr>caps := (caps u)[2 * n := pos t, 2 * n + 1 := pos u]\<rparr>" by auto
  with Grp.prems(2) Grp.IH[OF u(1), of "\<lambda>t'. k (t'\<lparr>caps := (caps t')[2 * n := pos t, 2 * n + 1 := pos t']\<rparr>)" x]
  show ?case by simp
qed auto


lemma iter_induct_inv:
  assumes "iter R t t'" and "P t" and "\<And>u v. P u \<Longrightarrow> R u v \<Longrightarrow> P v"
  shows "P t'"
  using assms by (induction rule: iter.induct) auto

lemma sem_consumes:
  "sem r t t' \<Longrightarrow> \<exists>w. rest t = w @ rest t' \<and> pos t' = pos t + int (length w)"
proof (induction r arbitrary: t t')
  case (Seq a b)
  from Seq.prems obtain u where "sem a t u" "sem b u t'" by auto
  with Seq.IH[of t u] Seq.IH(2)[of u t'] show ?case by fastforce
next
  case (Star a)
  from Star.prems have "iter (sem a) t t'" by simp
  then show ?case
  proof (induction rule: iter.induct)
    case (iter_done t)
    then show ?case by simp
  next
    case (iter_step t u t')
    from Star.IH[OF iter_step.hyps(1)] iter_step.IH show ?case by fastforce
  qed
next
  case (Grp n a)
  then show ?case by fastforce
qed auto

lemma sem_length_caps: "sem r t t' \<Longrightarrow> length (caps t') = length (caps t)"
proof (induction r arbitrary: t t')
  case (Seq a b)
  then show ?case by fastforce
next
  case (Star a)
  from Star.prems have "iter (sem a) t t'" by simp
  then show ?case
    by (induction rule: iter.induct) (use Star.IH in auto)
next
  case (Grp n a)
  then show ?case by fastforce
qed auto

primrec groups :: "re \<Rightarrow> nat set" where
  "groups Eps = {}"
| "groups Bol = {}"
| "groups (Cls cs) = {}"
| "groups (Seq a b) = groups a \<union> groups b"
| "groups (Alt a b) = groups a \<union> groups b"
| "groups (Star a) = groups a"
| "groups (Grp n a) = insert n (groups a)"

lemma sem_frame: "sem r t t' \<Longrightarrow> i div 2 \<notin> groups r \<Longrightarrow> caps t' ! i = caps t ! i"
proof (induction r arbitrary: t t')
  case (Seq a b)
  then show ?case by fastforce
next
  case (Star a)
  from Star.prems have "iter (sem a) t t'" "i div 2 \<notin> groups a" by simp_all
  then show ?case
    by (induction rule: iter.induct) (use Star.IH in auto)
next
  case (Grp n a)
  from Grp.prems obtain u where u: "sem a t u"
    "t' = u\<lparr>caps := (caps u)[2 * n := pos t, 2 * n + 1 := pos u]\<rparr>" by auto
  from Grp.prems(2) have "i \<noteq> 2 * n" "i \<noteq> 2 * n + 1" "i div 2 \<notin> groups a" by auto
  with u Grp.IH[OF u(1)] show ?case by simp
qed auto

definition within :: "string \<Rightarrow> thread \<Rightarrow> bool" where
  "within raw t = (0 \<le> pos t \<and> pos t \<le> int (length raw) \<and> rest t = drop (nat (pos t)) raw)"

lemma sem_within: "sem r t t' \<Longrightarrow> within raw t \<Longrightarrow> within raw t'"
proof -
  assume s: "sem r t t'" and w: "within raw t"
  from sem_consumes[OF s] obtain x where x: "rest t = x @ rest t'" "pos t' = pos t + int (length x)"
    by blast
  from w x have d: "drop (nat (pos t)) raw = x @ rest t'" by (simp add: within_def)
  then have "drop (length x) (drop (nat (pos t)) raw) = rest t'"
    "length x \<le> length (drop (nat (pos t)) raw)"
    by simp_all
  moreover from w x(2) have "nat (pos t') = length x + nat (pos t)"
    by (simp add: within_def nat_add_distrib)
  ultimately show ?thesis using w x(2) by (auto simp: within_def)
qed

lemma slice_within:
  "within raw t \<Longrightarrow> rest t = x @ r \<Longrightarrow> slice raw (pos t) (pos t + int (length x)) = Some x"
proof -
  assume w: "within raw t" and x: "rest t = x @ r"
  then have d: "drop (nat (pos t)) raw = x @ r" by (simp add: within_def)
  then have "length x \<le> length raw - nat (pos t)"
    by (metis length_append length_drop le_add1)
  moreover from w have "0 \<le> pos t" "pos t \<le> int (length raw)" by (simp_all add: within_def)
  ultimately show ?thesis using d by (simp add: slice_def nat_add_distrib)
qed

lemma execute_sound:
  "execute r p s = Some idx \<Longrightarrow>
     \<exists>q t'. q \<le> length s \<and> sem r (start r (p + int q) (drop q s)) t' \<and>
       idx = (caps t')[0 := p + int q, 1 := pos t']"
proof (induction s arbitrary: p)
  case Nil
  then have "run r (accept p) (start r p []) = Some idx" by simp
  from run_sound[OF this] show ?case by (auto simp: accept_def)
next
  case (Cons c cs)
  show ?case
  proof (cases "run r (accept p) (start r p (c # cs))")
    case None
    with Cons.prems have "execute r (p + 1) cs = Some idx" by simp
    from Cons.IH[OF this] obtain q t' where "q \<le> length cs"
      "sem r (start r (p + 1 + int q) (drop q cs)) t'"
      "idx = (caps t')[0 := p + 1 + int q, 1 := pos t']" by blast
    then show ?thesis by (intro exI[of _ "Suc q"] exI[of _ t']) (simp add: add.assoc)
  next
    case (Some y)
    with Cons.prems have "run r (accept p) (start r p (c # cs)) = Some idx" by simp
    from run_sound[OF this] obtain t' where "sem r (start r p (c # cs)) t'"
      "idx = (caps t')[0 := p, 1 := pos t']" by (auto simp: accept_def)
    then show ?thesis by (intro exI[of _ 0] exI[of _ t']) simp
  qed
qed

lemma execute_first:
  "run r (accept p) (start r p s) = Some y \<Longrightarrow> execute r p s = Some y"
  by (cases s) auto

lemma Find_anchored:
  assumes "FindStringSubmatchIndex (Seq Bol r) s = Some idx"
  shows "\<exists>t'. sem r (start (Seq Bol r) 0 s) t' \<and> idx = (caps t')[0 := 0, 1 := pos t']"
proof -
  from assms execute_sound[of "Seq Bol r" 0 s idx] obtain q t'
    where q: "sem (Seq Bol r) (start (Seq Bol r) (int q) (drop q s)) t'"
      "idx = (caps t')[0 := int q, 1 := pos t']"
    by (auto simp: FindStringSubmatchIndex_def)
  from q(1) have "q = 0" by (auto simp: start_def)
  with q show ?thesis by auto
qed

lemma accept_run:
  assumes "sem r t u"
  shows "\<exists>t'. sem r t t' \<and> run r (accept p) t = Some ((caps t')[0 := p, 1 := pos t'])"
proof -
  have "accept p u = Some ((caps u)[0 := p, 1 := pos u])" by (simp add: accept_def)
  from run_complete[where k = "accept p" and t' = u, OF assms this]
  obtain y where y: "run r (accept p) t = Some y" by blast
  from run_sound[OF y] obtain t' where "sem r t t'" "accept p t' = Some y" by blast
  with y show ?thesis by (auto simp: accept_def)
qed

lemma groups_lit [simp]: "groups (lit s) = {}"
  by (induction s) auto

lemma groups_opt [simp]: "groups (opt r) = groups r"
  by (simp add: opt_def)

lemma groups_plus [simp]: "groups (plus r) = groups r"
  by (simp add: plus_def)

lemma groups_times [simp]: "groups (times n r) = (if n = 0 then {} else groups r)"
  by (induction n) auto

lemma groups_upto [simp]: "groups (upto n r) = (if n = 0 then {} else groups r)"
  by (induction n) auto

lemma groups_rep: "groups (rep n m r) \<subseteq> groups r"
  by (auto simp: rep_def split: if_splits)

lemma groups_alts [simp]: "groups (alts rs) = (\<Union>r\<in>set rs. groups r)"
  by (induction rs rule: alts.induct) auto

lemma groups_classes [simp]:
  "groups digit = {}" "groups upper = {}" "groups space = {}" "groups spaces = {}"
  by (simp_all add: digit_def upper_def space_def spaces_def)

lemma sem_lit:
  "sem (lit s) t t' = (\<exists>r. rest t = s @ r \<and> t' = t\<lparr>pos := pos t + int (length s), rest := r\<rparr>)"
proof (induction s arbitrary: t)
  case Nil
  then show ?case by auto
next
  case (Cons c s)
  show ?case by (auto simp: Cons.IH)
qed


lemma run_Seq_ext: "run (Seq a b) k = run a (run b k)"
  by (rule ext) simp

lemma sem_lits:
  "sem (lits ws) t t' =
     (\<exists>w\<in>set ws. \<exists>r. rest t = w @ r \<and> t' = t\<lparr>pos := pos t + int (length w), rest := r\<rparr>)"
proof (induction ws rule: induct_list012)
  case 1
  then show ?case by (simp add: lits_def)
next
  case (2 x)
  then show ?case by (simp add: lits_def sem_lit)
next
  case (3 x y zs)
  then show ?case by (auto simp: lits_def sem_lit)
qed

lemma sem_Grp_lits:
  assumes "sem (Grp n (lits ws)) t t'"
  obtains w r where "w \<in> set ws" "rest t = w @ r"
    "t' = t\<lparr>pos := pos t + int (length w), rest := r,
       caps := (caps t)[2 * n := pos t, 2 * n + 1 := pos t + int (length w)]\<rparr>"
proof -
  from assms obtain v where v: "sem (lits ws) t v"
    "t' = v\<lparr>caps := (caps v)[2 * n := pos t, 2 * n + 1 := pos v]\<rparr>" by auto
  from v(1) obtain w r where w: "w \<in> set ws" "rest t = w @ r"
    "v = t\<lparr>pos := pos t + int (length w), rest := r\<rparr>"
    unfolding sem_lits by blast
  from v(2) w(3) have "t' = t\<lparr>pos := pos t + int (length w), rest := r,
       caps := (caps t)[2 * n := pos t, 2 * n + 1 := pos t + int (length w)]\<rparr>" by simp
  with w(1,2) show ?thesis by (rule that)
qed

lemma groups_lits [simp]: "groups (lits ws) = {}"
  by (simp add: lits_def)

lemma groups_rep_empty [simp]: "groups r = {} \<Longrightarrow> groups (rep n m r) = {}"
  using groups_rep[of n m r] by simp

lemma accept_run_frame:
  assumes "sem r t u"
  shows "\<exists>y. run r (accept p) t = Some y \<and> length y = length (caps t) \<and>
           (\<forall>i. 2 \<le> i \<longrightarrow> i div 2 \<notin> groups r \<longrightarrow> y ! i = caps t ! i)"
proof -
  from accept_run[OF assms, of p] obtain t' where t': "sem r t t'"
    "run r (accept p) t = Some ((caps t')[0 := p, 1 := pos t'])" by blast
  have "(caps t')[0 := p, 1 := pos t'] ! i = caps t ! i" if "2 \<le> i" "i div 2 \<notin> groups r" for i
    using that sem_frame[OF t'(1), of i] by simp
  with t'(2) sem_length_caps[OF t'(1)] show ?thesis by simp
qed

lemma slice_prefix: "slice (u @ r) 0 (int (length u)) = Some u"
  by (simp add: slice_def)

primrec chars :: "re \<Rightarrow> char set" where
  "chars Eps = {}"
| "chars Bol = {}"
| "chars (Cls cs) = set cs"
| "chars (Seq a b) = chars a \<union> chars b"
| "chars (Alt a b) = chars a \<union> chars b"
| "chars (Star a) = chars a"
| "chars (Grp n a) = chars a"

primrec width :: "re \<Rightarrow> nat" where
  "width Eps = 0"
| "width Bol = 0"
| "width (Cls cs) = 1"
| "width (Seq a b) = width a + width b"
| "width (Alt a b) = width a"
| "width (Star a) = 0"
| "width (Grp n a) = width a"

primrec fixedw :: "re \<Rightarrow> bool" where
  "fixedw Eps = True"
| "fixedw Bol = True"
| "fixedw (Cls cs) = True"
| "fixedw (Seq a b) = (fixedw a \<and> fixedw b)"
| "fixedw (Alt a b) = (fixedw a \<and> fixedw b \<and> width a = width b)"
| "fixedw (Star a) = False"
| "fixedw (Grp n a) = fixedw a"

lemma sem_chars:
  "sem r t t' \<Longrightarrow> \<exists>w. rest t = w @ rest t' \<and> pos t' = pos t + int (length w) \<and> set w \<subseteq> chars r"
proof (induction r arbitrary: t t')
  case (Seq a b)
  from Seq.prems obtain u where u: "sem a t u" "sem b u t'" by auto
  from Seq.IH(1)[OF u(1)] obtain w1 where w1: "rest t = w1 @ rest u"
    "pos u = pos t + int (length w1)" "set w1 \<subseteq> chars a" by blast
  from Seq.IH(2)[OF u(2)] obtain w2 where w2: "rest u = w2 @ rest t'"
    "pos t' = pos u + int (length w2)" "set w2 \<subseteq> chars b" by blast
  from w1 w2 show ?case by (intro exI[of _ "w1 @ w2"]) auto
next
  case (Alt a b)
  then show ?case by fastforce
next
  case (Star a)
  from Star.prems have "iter (sem a) t t'" by simp
  then show ?case
  proof (induction rule: iter.induct)
    case (iter_done t)
    then show ?case by simp
  next
    case (iter_step t u t')
    from Star.IH[OF iter_step.hyps(1)] obtain w1 where w1: "rest t = w1 @ rest u"
      "pos u = pos t + int (length w1)" "set w1 \<subseteq> chars a" by blast
    from iter_step.IH obtain w2 where w2: "rest u = w2 @ rest t'"
      "pos t' = pos u + int (length w2)" "set w2 \<subseteq> chars (Star a)" by blast
    from w1 w2 show ?case by (intro exI[of _ "w1 @ w2"]) auto
  qed
next
  case (Grp n a)
  then show ?case by fastforce
qed auto

lemma sem_width: "sem r t t' \<Longrightarrow> fixedw r \<Longrightarrow> pos t' = pos t + int (width r)"
proof (induction r arbitrary: t t')
  case (Seq a b)
  then show ?case by fastforce
next
  case (Alt a b)
  then show ?case by fastforce
next
  case (Grp n a)
  then show ?case by fastforce
qed auto

lemma sem_fixed:
  assumes "sem r t t'" "fixedw r"
  obtains w where "rest t = w @ rest t'" "length w = width r" "set w \<subseteq> chars r"
    "pos t' = pos t + int (width r)"
proof -
  from sem_chars[OF assms(1)] obtain w where w: "rest t = w @ rest t'"
    "pos t' = pos t + int (length w)" "set w \<subseteq> chars r" by blast
  from sem_width[OF assms] w(2) have "length w = width r" by simp
  with w show ?thesis using that by simp
qed

lemma chars_lit [simp]: "chars (lit s) = set s"
  by (induction s) auto
lemma chars_opt [simp]: "chars (opt r) = chars r"
  by (simp add: opt_def)
lemma chars_plus [simp]: "chars (plus r) = chars r"
  by (simp add: plus_def)
lemma chars_times: "chars (times n r) \<subseteq> chars r"
  by (induction n) auto
lemma chars_upto: "chars (upto n r) \<subseteq> chars r"
  by (induction n) auto
lemma chars_rep: "chars (rep n m r) \<subseteq> chars r"
  using chars_times[of n r] chars_upto[of "m - n" r] by (auto simp: rep_def)
lemma fixedw_times [simp]: "fixedw (times n r) = (n = 0 \<or> fixedw r)"
  by (induction n) auto
lemma width_times [simp]: "width (times n r) = n * width r"
  by (induction n) auto
lemma fixedw_rep [simp]: "fixedw r \<Longrightarrow> fixedw (rep n n r)"
  by (simp add: rep_def)
lemma width_rep [simp]: "width (rep n n r) = n * width r"
  by (simp add: rep_def)
lemma fixed_classes [simp]: "fixedw digit" "width digit = 1" "fixedw upper" "width upper = 1"
  by (simp_all add: digit_def upper_def)

lemma decimal_snoc: "decimal (ds @ [c]) = decimal ds * 10 + digitVal c"
  by (simp add: decimal_def)

lemma digitVal_range: "isDigit c \<Longrightarrow> 0 \<le> digitVal c \<and> digitVal c \<le> 9"
  by (auto simp: isDigit_def digitVal_def)

lemma decimal_bound: "list_all isDigit ds \<Longrightarrow> 0 \<le> decimal ds \<and> decimal ds < 10 ^ length ds"
proof (induction ds rule: rev_induct)
  case Nil
  then show ?case by (simp add: decimal_def)
next
  case (snoc c ds)
  then have "0 \<le> decimal ds" "decimal ds + 1 \<le> 10 ^ length ds" by simp_all
  moreover from snoc.prems have "0 \<le> digitVal c" "digitVal c \<le> 9"
    using digitVal_range[of c] by simp_all
  ultimately show ?case by (simp add: decimal_snoc)
qed

lemma Atoi_digits:
  assumes "list_all isDigit ds" "ds \<noteq> []" "length ds \<le> 18"
  shows "Atoi ds = Some (decimal ds)"
proof -
  from assms(1,2) have "hd ds \<noteq> CHR ''-''" "hd ds \<noteq> CHR ''+''"
    by (cases ds; auto simp: isDigit_def)+
  moreover have "(10::int) ^ length ds \<le> 10 ^ 18"
    using assms(3) by (intro power_increasing) simp_all
  with decimal_bound[OF assms(1)] have "0 \<le> decimal ds" "decimal ds < 2 ^ 63"
    by simp_all
  ultimately show ?thesis using assms(1,2)
    by (cases ds) (auto simp: Atoi_def Let_def)
qed

subsection \<open>What each step writes\<close>

lemma advance_uniform:
  "advance m raw idx = Inr (m', raw') \<Longrightarrow> m' = m \<and> (\<forall>n. advance n raw idx = Inr (n, raw'))"
  by (auto simp: advance_def split: option.splits)

lemma parse_type_Inr:
  "parse_type (m, raw) = Inr (m', raw') \<Longrightarrow> m' = m \<and> (\<forall>n. parse_type (n, raw) = Inr (n, raw'))"
  by (auto simp: parse_type_def advance_def split: option.splits)

lemma parse_station_Inr:
  "parse_station (m, raw) = Inr (m', raw') \<Longrightarrow>
     \<exists>st. m' = m\<lparr>Station := st\<rparr> \<and> (\<forall>n. parse_station (n, raw) = Inr (n\<lparr>Station := st\<rparr>, raw'))"
  by (auto simp: parse_station_def advance_def split: option.splits)

lemma parse_time_Inr:
  "parse_time rawDate (m, raw) = Inr (m', raw') \<Longrightarrow>
     \<exists>t. m' = m\<lparr>Time := t\<rparr> \<and> (\<forall>n. parse_time rawDate (n, raw) = Inr (n\<lparr>Time := t\<rparr>, raw'))"
  by (auto simp: parse_time_def advance_def split: option.splits)

lemma parse_modifier_Inr:
  "parse_modifier (m, raw) = Inr (m', raw') \<Longrightarrow>
     (m' = m \<and> (\<forall>n. parse_modifier (n, raw) = Inr (n, raw'))) \<or>
     (\<exists>md. m' = m\<lparr>Mod := md\<rparr> \<and> (\<forall>n. parse_modifier (n, raw) = Inr (n\<lparr>Mod := md\<rparr>, raw')))"
  by (auto simp: parse_modifier_def advance_def split: option.splits)

lemma parse_wind_Inr:
  "parse_wind (m, raw) = Inr (m', raw') \<Longrightarrow>
     \<exists>w. m' = m\<lparr>Wind := w\<rparr> \<and> (\<forall>n. parse_wind (n, raw) = Inr (n\<lparr>Wind := w\<rparr>, raw'))"
  by (auto simp: parse_wind_def advance_def split: option.splits sum.splits)

lemma parse_visibility_Inr:
  "parse_visibility (m, raw) = Inr (m', raw') \<Longrightarrow>
     \<exists>v. m' = m\<lparr>Visibility := v\<rparr> \<and>
       (\<forall>n. parse_visibility (n, raw) = Inr (n\<lparr>Visibility := v\<rparr>, raw'))"
  by (auto simp: parse_visibility_def advance_def split: option.splits if_splits)

lemma weather_loop_Inr:
  "weather_loop raw idxs m = Inr m' \<Longrightarrow>
     \<exists>ws. length ws = length idxs \<and> map Some ws = map (weather_of raw) idxs \<and>
       m' = m\<lparr>Weather := Weather m @ ws\<rparr> \<and>
       (\<forall>n. weather_loop raw idxs n = Inr (n\<lparr>Weather := Weather n @ ws\<rparr>))"
proof (induction idxs arbitrary: m)
  case Nil
  then show ?case by simp
next
  case (Cons idx idxs)
  from Cons.prems obtain w where w: "weather_of raw idx = Some w"
    "weather_loop raw idxs (m\<lparr>Weather := Weather m @ [w]\<rparr>) = Inr m'"
    by (auto split: option.splits)
  from Cons.IH[OF w(2)] obtain ws where ws: "length ws = length idxs"
    "map Some ws = map (weather_of raw) idxs"
    "m' = m\<lparr>Weather := Weather m @ [w]\<rparr>\<lparr>Weather := Weather (m\<lparr>Weather := Weather m @ [w]\<rparr>) @ ws\<rparr>"
    "\<forall>n. weather_loop raw idxs n = Inr (n\<lparr>Weather := Weather n @ ws\<rparr>)" by blast
  with w(1) show ?case by (intro exI[of _ "w # ws"]) simp
qed

lemma parse_weather_Inr:
  "parse_weather (m, raw) = Inr (m', raw') \<Longrightarrow>
     \<exists>ws. map Some ws = map (weather_of raw) (FindAllStringSubmatchIndex re_weather raw) \<and>
       m' = m\<lparr>Weather := Weather m @ ws\<rparr> \<and>
       (\<forall>n. parse_weather (n, raw) = Inr (n\<lparr>Weather := Weather n @ ws\<rparr>, raw'))"
proof (cases "FindAllStringSubmatchIndex re_weather raw")
  case Nil
  assume "parse_weather (m, raw) = Inr (m', raw')"
  with Nil show ?thesis by (intro exI[of _ "[]"]) (simp add: parse_weather_def)
next
  case (Cons idx idxs)
  assume "parse_weather (m, raw) = Inr (m', raw')"
  with Cons obtain m1 where m1: "weather_loop raw (idx # idxs) m = Inr m1"
    "advance m1 raw (last (idx # idxs)) = Inr (m', raw')"
    by (auto simp: parse_weather_def split: sum.splits)
  from weather_loop_Inr[OF m1(1)] obtain ws where ws:
    "map Some ws = map (weather_of raw) (idx # idxs)"
    "m1 = m\<lparr>Weather := Weather m @ ws\<rparr>"
    "\<forall>n. weather_loop raw (idx # idxs) n = Inr (n\<lparr>Weather := Weather n @ ws\<rparr>)" by blast
  from advance_uniform[OF m1(2)] ws Cons show ?thesis
    by (intro exI[of _ ws]) (simp add: parse_weather_def)
qed

lemma sky_loop_Inr:
  "sky_loop raw idxs m = Inr m' \<Longrightarrow>
     \<exists>ss. length ss = length idxs \<and> map Inr ss = map (sky_of raw) idxs \<and>
       m' = m\<lparr>Sky := Sky m @ ss\<rparr> \<and>
       (\<forall>n. sky_loop raw idxs n = Inr (n\<lparr>Sky := Sky n @ ss\<rparr>))"
proof (induction idxs arbitrary: m)
  case Nil
  then show ?case by simp
next
  case (Cons idx idxs)
  from Cons.prems obtain w where w: "sky_of raw idx = Inr w"
    "sky_loop raw idxs (m\<lparr>Sky := Sky m @ [w]\<rparr>) = Inr m'"
    by (auto split: sum.splits)
  from Cons.IH[OF w(2)] obtain ss where ss: "length ss = length idxs"
    "map Inr ss = map (sky_of raw) idxs"
    "m' = m\<lparr>Sky := Sky m @ [w]\<rparr>\<lparr>Sky := Sky (m\<lparr>Sky := Sky m @ [w]\<rparr>) @ ss\<rparr>"
    "\<forall>n. sky_loop raw idxs n = Inr (n\<lparr>Sky := Sky n @ ss\<rparr>)" by blast
  with w(1) show ?case by (intro exI[of _ "w # ss"]) simp
qed

lemma parse_sky_Inr:
  "parse_sky (m, raw) = Inr (m', raw') \<Longrightarrow>
     \<exists>ss. ss \<noteq> [] \<and> map Inr ss = map (sky_of raw) (FindAllStringSubmatchIndex re_sky raw) \<and>
       m' = m\<lparr>Sky := Sky m @ ss\<rparr> \<and>
       (\<forall>n. parse_sky (n, raw) = Inr (n\<lparr>Sky := Sky n @ ss\<rparr>, raw'))"
proof (cases "FindAllStringSubmatchIndex re_sky raw")
  case Nil
  assume "parse_sky (m, raw) = Inr (m', raw')"
  with Nil show ?thesis by (simp add: parse_sky_def)
next
  case (Cons idx idxs)
  assume "parse_sky (m, raw) = Inr (m', raw')"
  with Cons obtain m1 where m1: "sky_loop raw (idx # idxs) m = Inr m1"
    "advance m1 raw (last (idx # idxs)) = Inr (m', raw')"
    by (auto simp: parse_sky_def split: sum.splits)
  from sky_loop_Inr[OF m1(1)] obtain ss where ss:
    "length ss = length (idx # idxs)"
    "map Inr ss = map (sky_of raw) (idx # idxs)"
    "m1 = m\<lparr>Sky := Sky m @ ss\<rparr>"
    "\<forall>n. sky_loop raw (idx # idxs) n = Inr (n\<lparr>Sky := Sky n @ ss\<rparr>)" by blast
  from ss(1) have "ss \<noteq> []" by auto
  with advance_uniform[OF m1(2)] ss Cons show ?thesis
    by (intro exI[of _ ss]) (simp add: parse_sky_def)
qed

lemma parse_temp_Inr:
  assumes "parse_temp (m, raw) = Inr (m', raw')"
  shows "\<exists>t d. m' = m\<lparr>Temp := t, DewPt := d\<rparr> \<and>
       (\<forall>n. parse_temp (n, raw) = Inr (n\<lparr>Temp := t, DewPt := d\<rparr>, raw'))"
proof -
  from assms obtain idx s1 ts t s2 ds d where
    "FindStringSubmatchIndex re_temp raw = Some idx"
    "slice raw (idx ! 2) (idx ! 3) = Some s1" "signed raw idx 4 s1 = Some ts" "Atoi ts = Some t"
    "slice raw (idx ! 6) (idx ! 7) = Some s2" "signed raw idx 8 s2 = Some ds" "Atoi ds = Some d"
    "advance (m\<lparr>Temp := t, DewPt := d\<rparr>) raw idx = Inr (m', raw')"
    by (auto simp: parse_temp_def split: option.splits)
  then show ?thesis
    by (intro exI[of _ t] exI[of _ d]) (auto simp: parse_temp_def advance_def split: option.splits)
qed

lemma parse_press_Inr:
  "parse_press (m, raw) = Inr (m', raw') \<Longrightarrow>
     \<exists>p. m' = m\<lparr>Pressure := p\<rparr> \<and>
       (\<forall>n. parse_press (n, raw) = Inr (n\<lparr>Pressure := p\<rparr>, raw'))"
  by (auto simp: parse_press_def split: option.splits if_splits)

lemma advance_Inl: "advance m raw idx = Inl (m', e) \<Longrightarrow> m' = m \<and> e = panic"
  by (auto simp: advance_def split: option.splits)

lemma weather_loop_Inl:
  "weather_loop raw idxs m = Inl (m', e) \<Longrightarrow> e = panic \<and> (\<exists>ws. m' = m\<lparr>Weather := Weather m @ ws\<rparr>)"
proof (induction idxs arbitrary: m)
  case Nil
  then show ?case by simp
next
  case (Cons idx idxs)
  show ?case
  proof (cases "weather_of raw idx")
    case None
    with Cons.prems show ?thesis by (auto intro: exI[of _ "[]"])
  next
    case (Some w)
    with Cons.prems have "weather_loop raw idxs (m\<lparr>Weather := Weather m @ [w]\<rparr>) = Inl (m', e)"
      by simp
    from Cons.IH[OF this] obtain ws where "e = panic"
      "m' = m\<lparr>Weather := Weather m @ [w]\<rparr>\<lparr>Weather := Weather (m\<lparr>Weather := Weather m @ [w]\<rparr>) @ ws\<rparr>"
      by blast
    then show ?thesis by (auto intro: exI[of _ "w # ws"])
  qed
qed

lemma sky_loop_Inl:
  "sky_loop raw idxs m = Inl (m', e) \<Longrightarrow>
     (e = panic \<or> e = Errorf ''Error converting cloud height value in metar'') \<and>
     (\<exists>ss. m' = m\<lparr>Sky := Sky m @ ss\<rparr>)"
proof (induction idxs arbitrary: m)
  case Nil
  then show ?case by simp
next
  case (Cons idx idxs)
  show ?case
  proof (cases "sky_of raw idx")
    case (Inl x)
    with Cons.prems have "m' = m" "e = x" by simp_all
    moreover from Inl have "x = panic \<or> x = Errorf ''Error converting cloud height value in metar''"
      by (auto simp: sky_of_def converted_def split: option.splits sum.splits if_splits)
    ultimately show ?thesis by (auto intro: exI[of _ "[]"])
  next
    case (Inr w)
    with Cons.prems have "sky_loop raw idxs (m\<lparr>Sky := Sky m @ [w]\<rparr>) = Inl (m', e)"
      by simp
    from Cons.IH[OF this] obtain ss where
      "e = panic \<or> e = Errorf ''Error converting cloud height value in metar''"
      "m' = m\<lparr>Sky := Sky m @ [w]\<rparr>\<lparr>Sky := Sky (m\<lparr>Sky := Sky m @ [w]\<rparr>) @ ss\<rparr>"
      by blast
    then show ?thesis by (auto intro: exI[of _ "w # ss"])
  qed
qed

text \<open>
  Every way a step ends the call: never with \<^verbatim>\<open>nil\<close>, with the station error only in
  the station step and with the record untouched, and otherwise with the station and the
  pressure as the step found them.
\<close>

definition station_error :: outcome where
  "station_error = Errorf ''Error parsing station identifier''"

definition ends_call :: "Metar \<Rightarrow> Metar \<Rightarrow> outcome \<Rightarrow> bool" where
  "ends_call m m' e =
     (e \<noteq> nil \<and> e \<noteq> station_error \<and> Station m' = Station m \<and> Pressure m' = Pressure m)"

lemma parse_type_Inl: "parse_type (m, raw) = Inl (m', e) \<Longrightarrow> m' = m \<and> e = panic"
  by (auto simp: parse_type_def advance_def split: option.splits)

lemma parse_station_Inl:
  "parse_station (m, raw) = Inl (m', e) \<Longrightarrow>
     (e = station_error \<and> m' = m) \<or> (e = panic \<and> Pressure m' = Pressure m)"
  by (auto simp: parse_station_def advance_def station_error_def split: option.splits)

lemma parse_time_Inl: "parse_time rawDate (m, raw) = Inl (m', e) \<Longrightarrow> ends_call m m' e"
  by (auto simp: parse_time_def advance_def ends_call_def station_error_def split: option.splits)

lemma parse_modifier_Inl: "parse_modifier (m, raw) = Inl (m', e) \<Longrightarrow> ends_call m m' e"
  by (auto simp: parse_modifier_def advance_def ends_call_def station_error_def
      split: option.splits)

lemma converted_Inl: "converted raw idx a msg = Inl e \<Longrightarrow> e = panic \<or> e = Errorf msg"
  by (auto simp: converted_def split: option.splits if_splits)

lemma wind_of_Inl:
  "wind_of raw idx = Inl e \<Longrightarrow> e \<noteq> nil \<and> e \<noteq> station_error"
  by (auto simp: wind_of_def wind_dir_def station_error_def
      split: option.splits if_splits sum.splits prod.splits dest!: converted_Inl)

lemma parse_wind_Inl: "parse_wind (m, raw) = Inl (m', e) \<Longrightarrow> ends_call m m' e"
  by (auto simp: parse_wind_def advance_def ends_call_def station_error_def
      split: option.splits sum.splits dest: wind_of_Inl)

lemma parse_visibility_Inl: "parse_visibility (m, raw) = Inl (m', e) \<Longrightarrow> ends_call m m' e"
  by (auto simp: parse_visibility_def advance_def ends_call_def station_error_def
      split: option.splits if_splits)

lemma parse_weather_Inl:
  assumes "parse_weather (m, raw) = Inl (m', e)"
  shows "ends_call m m' e"
proof (cases "FindAllStringSubmatchIndex re_weather raw")
  case Nil
  with assms show ?thesis by (simp add: parse_weather_def)
next
  case (Cons idx idxs)
  show ?thesis
  proof (cases "weather_loop raw (idx # idxs) m")
    case (Inl r)
    with assms Cons have "weather_loop raw (idx # idxs) m = Inl (m', e)"
      by (simp add: parse_weather_def del: weather_loop.simps)
    from weather_loop_Inl[OF this] show ?thesis
      by (auto simp: ends_call_def station_error_def)
  next
    case (Inr m1)
    with assms Cons have "advance m1 raw (last (idx # idxs)) = Inl (m', e)"
      by (simp add: parse_weather_def del: weather_loop.simps)
    from advance_Inl[OF this] weather_loop_Inr[OF Inr] show ?thesis
      by (auto simp: ends_call_def station_error_def)
  qed
qed

lemma parse_sky_Inl:
  assumes "parse_sky (m, raw) = Inl (m', e)"
  shows "ends_call m m' e"
proof (cases "FindAllStringSubmatchIndex re_sky raw")
  case Nil
  with assms show ?thesis by (auto simp: parse_sky_def ends_call_def station_error_def)
next
  case (Cons idx idxs)
  show ?thesis
  proof (cases "sky_loop raw (idx # idxs) m")
    case (Inl r)
    with assms Cons have "sky_loop raw (idx # idxs) m = Inl (m', e)"
      by (simp add: parse_sky_def del: sky_loop.simps)
    from sky_loop_Inl[OF this] show ?thesis
      by (auto simp: ends_call_def station_error_def)
  next
    case (Inr m1)
    with assms Cons have "advance m1 raw (last (idx # idxs)) = Inl (m', e)"
      by (simp add: parse_sky_def del: sky_loop.simps)
    from advance_Inl[OF this] sky_loop_Inr[OF Inr] show ?thesis
      by (auto simp: ends_call_def station_error_def)
  qed
qed

lemma parse_temp_Inl: "parse_temp (m, raw) = Inl (m', e) \<Longrightarrow> ends_call m m' e"
  by (auto simp: parse_temp_def advance_def ends_call_def station_error_def split: option.splits)

lemma parse_press_Inl: "parse_press (m, raw) = Inl (m', e) \<Longrightarrow> ends_call m m' e"
  by (auto simp: parse_press_def ends_call_def station_error_def split: option.splits if_splits)

lemma caps_station: "replicate (2 * (numSubexp re_station + 1)) (- 1 :: int) = [-1, -1, -1, -1]"
  by code_simp

lemma start_station: "start re_station p s = \<lparr>pos = p, rest = s, caps = [-1, -1, -1, -1]\<rparr>"
  by (simp only: start_def caps_station)

lemma slice_length: "slice raw a b = Some x \<Longrightarrow> int (length x) = b - a"
  by (auto simp: slice_def split: if_splits)

lemma parse_station_length:
  assumes "parse_station (m, raw) = Inr (m', raw')"
  shows "length (Station m') = 4"
proof -
  let ?X = "Seq upper (rep 3 3 (Cls ''ABCDEFGHIJKLMNOPQRSTUVWXYZ0123456789''))"
  let ?t0 = "start re_station 0 raw"
  from assms obtain idx st where idx: "FindStringSubmatchIndex re_station raw = Some idx"
    "slice raw (idx ! 2) (idx ! 3) = Some st" "Station m' = st"
    by (auto simp: parse_station_def advance_def split: option.splits)
  from Find_anchored[OF idx(1)[unfolded re_station_def]] obtain t'
    where t': "sem (Seq (Grp 1 ?X) spaces) ?t0 t'" "idx = (caps t')[0 := 0, 1 := pos t']"
    by (auto simp: re_station_def)
  from t'(1) obtain u where u: "sem (Grp 1 ?X) ?t0 u" "sem spaces u t'" by auto
  from u(1) obtain v where v: "sem ?X ?t0 v" "u = v\<lparr>caps := (caps v)[2 * 1 := pos ?t0, 2 * 1 + 1 := pos v]\<rparr>"
    by auto
  have "fixedw ?X" "width ?X = 4" by simp_all
  with sem_width[OF v(1)] have "pos v = 4" by (simp add: start_station)
  moreover from sem_length_caps[OF v(1)] have "length (caps v) = 4" by (simp add: start_station)
  ultimately have "caps u ! 2 = 0" "caps u ! 3 = 4" using v(2) by (simp_all add: start_station)
  moreover have "idx ! 2 = caps u ! 2" "idx ! 3 = caps u ! 3"
    using sem_frame[OF u(2), of 2] sem_frame[OF u(2), of 3] t'(2) by simp_all
  ultimately have "idx ! 2 = 0" "idx ! 3 = 4" by simp_all
  with slice_length[OF idx(2)] idx(3) show ?thesis by simp
qed

definition stage_inv :: "Metar \<Rightarrow> (Metar \<times> outcome) + cursor \<Rightarrow> bool" where
  "stage_inv m x =
     (case x of
        Inl (m', e) \<Rightarrow>
          e \<noteq> nil \<and> (if e = station_error then m' = m
             else e = panic \<or> (length (Station m') = 4 \<and> Pressure m' = Pressure m))
      | Inr (m1, raw1) \<Rightarrow> length (Station m1) = 4 \<and> Pressure m1 = Pressure m)"

lemma stage_inv_station: "stage_inv m (through_station m raw)"
proof (cases "parse_type (m, raw)")
  case (Inl r)
  then show ?thesis
    using parse_type_Inl[of m raw "fst r" "snd r"]
    by (auto simp: through_station_def andThen_def stage_inv_def station_error_def
        split: prod.splits)
next
  case (Inr c)
  with parse_type_Inr[of m raw "fst c" "snd c"] have c: "fst c = m" by simp
  show ?thesis
  proof (cases "parse_station c")
    case (Inl r)
    with parse_station_Inl[of "fst c" "snd c" "fst r" "snd r"] c Inr show ?thesis
      by (auto simp: through_station_def andThen_def stage_inv_def station_error_def
          split: prod.splits)
  next
    case r: (Inr c')
    from parse_station_length[of "fst c" "snd c" "fst c'" "snd c'"]
      parse_station_Inr[of "fst c" "snd c" "fst c'" "snd c'"] r c Inr
    show ?thesis
      by (auto simp: through_station_def andThen_def stage_inv_def split: prod.splits)
  qed
qed

lemma stage_inv_andThen:
  assumes "stage_inv m x"
    and "\<And>m1 raw1 m' e. f (m1, raw1) = Inl (m', e) \<Longrightarrow> ends_call m1 m' e"
    and "\<And>m1 raw1 m2 raw2. f (m1, raw1) = Inr (m2, raw2) \<Longrightarrow>
           Station m2 = Station m1 \<and> Pressure m2 = Pressure m1"
  shows "stage_inv m (andThen x f)"
proof (cases x)
  case (Inl r)
  with assms(1) show ?thesis by (simp add: andThen_def)
next
  case (Inr c)
  obtain m1 raw1 where c: "c = (m1, raw1)" by (cases c)
  show ?thesis
  proof (cases "f (m1, raw1)")
    case (Inl r)
    obtain m' e where r: "r = (m', e)" by (cases r)
    from assms(2)[of m1 raw1 m' e] Inl r have "ends_call m1 m' e" by simp
    with assms(1) Inr c Inl r show ?thesis
      by (auto simp: andThen_def stage_inv_def ends_call_def)
  next
    case r: (Inr c')
    obtain m2 raw2 where c': "c' = (m2, raw2)" by (cases c')
    from assms(3)[of m1 raw1 m2 raw2] r c' have "Station m2 = Station m1 \<and> Pressure m2 = Pressure m1"
      by simp
    with assms(1) Inr c r c' show ?thesis
      by (auto simp: andThen_def stage_inv_def)
  qed
qed

lemma stage_inv_temp: "stage_inv m (through_temp m raw date)"
  unfolding through_temp_def through_sky_def through_weather_def through_visibility_def
    through_wind_def through_modifier_def through_time_def
  by (intro stage_inv_andThen stage_inv_station)
    (auto dest: parse_time_Inl parse_modifier_Inl parse_wind_Inl parse_visibility_Inl
      parse_weather_Inl parse_sky_Inl parse_temp_Inl
      dest!: parse_time_Inr parse_modifier_Inr parse_wind_Inr parse_visibility_Inr
      parse_weather_Inr parse_sky_Inr parse_temp_Inr)

lemma andThen_Inr: "andThen x f = Inr c \<Longrightarrow> \<exists>c1. x = Inr c1 \<and> f c1 = Inr c"
  by (cases x) (auto simp: andThen_def)

lemma Parse_nil_trace:
  assumes "Parse m raw date = (m', nil)"
  obtains raw1 raw2 raw3 raw4 raw5 raw6 raw7 raw8 st t md w v ws ss tp dp p where
    "\<forall>n. parse_type (n, raw) = Inr (n, raw1)"
    "\<forall>n. parse_station (n, raw1) = Inr (n\<lparr>Station := st\<rparr>, raw2)"
    "\<forall>n. parse_time date (n, raw2) = Inr (n\<lparr>Time := t\<rparr>, raw3)"
    "\<forall>n. parse_modifier (n, raw3) = Inr (case md of None \<Rightarrow> n | Some x \<Rightarrow> n\<lparr>Mod := x\<rparr>, raw4)"
    "\<forall>n. parse_wind (n, raw4) = Inr (n\<lparr>Wind := w\<rparr>, raw5)"
    "\<forall>n. parse_visibility (n, raw5) = Inr (n\<lparr>Visibility := v\<rparr>, raw6)"
    "\<forall>n. parse_weather (n, raw6) = Inr (n\<lparr>Weather := Weather n @ ws\<rparr>, raw7)"
    "map Some ws = map (weather_of raw6) (FindAllStringSubmatchIndex re_weather raw6)"
    "\<forall>n. parse_sky (n, raw7) = Inr (n\<lparr>Sky := Sky n @ ss\<rparr>, raw8)"
    "map Inr ss = map (sky_of raw7) (FindAllStringSubmatchIndex re_sky raw7)" "ss \<noteq> []"
    "\<forall>n. \<exists>raw9. parse_temp (n, raw8) = Inr (n\<lparr>Temp := tp, DewPt := dp\<rparr>, raw9) \<and>
       parse_press (n\<lparr>Temp := tp, DewPt := dp\<rparr>, raw9) = Inr (n\<lparr>Temp := tp, DewPt := dp, Pressure := p\<rparr>, raw9)"
proof -
  have "\<exists>c9. through_temp m raw date = Inr c9"
  proof (cases "through_temp m raw date")
    case (Inl r)
    with stage_inv_temp[of m raw date] assms show ?thesis
      by (auto simp: Parse_def andThen_def stage_inv_def split: prod.splits)
  qed simp
  then obtain m9 raw9 where c9: "through_temp m raw date = Inr (m9, raw9)" by auto
  have "\<exists>c. parse_press (m9, raw9) = Inr c"
  proof (cases "parse_press (m9, raw9)")
    case (Inl r)
    with parse_press_Inl[of m9 raw9 "fst r" "snd r"] assms c9 show ?thesis
      by (auto simp: Parse_def andThen_def ends_call_def split: prod.splits)
  qed simp
  then obtain mx rawx where cx: "parse_press (m9, raw9) = Inr (mx, rawx)" by auto
  from andThen_Inr[OF c9[unfolded through_temp_def]] obtain m8 raw8
    where c8: "through_sky m raw date = Inr (m8, raw8)" "parse_temp (m8, raw8) = Inr (m9, raw9)"
    by auto
  from andThen_Inr[OF c8(1)[unfolded through_sky_def]] obtain m7 raw7
    where c7: "through_weather m raw date = Inr (m7, raw7)" "parse_sky (m7, raw7) = Inr (m8, raw8)"
    by auto
  from andThen_Inr[OF c7(1)[unfolded through_weather_def]] obtain m6 raw6
    where c6: "through_visibility m raw date = Inr (m6, raw6)"
      "parse_weather (m6, raw6) = Inr (m7, raw7)"
    by auto
  from andThen_Inr[OF c6(1)[unfolded through_visibility_def]] obtain m5 raw5
    where c5: "through_wind m raw date = Inr (m5, raw5)"
      "parse_visibility (m5, raw5) = Inr (m6, raw6)"
    by auto
  from andThen_Inr[OF c5(1)[unfolded through_wind_def]] obtain m4 raw4
    where c4: "through_modifier m raw date = Inr (m4, raw4)" "parse_wind (m4, raw4) = Inr (m5, raw5)"
    by auto
  from andThen_Inr[OF c4(1)[unfolded through_modifier_def]] obtain m3 raw3
    where c3: "through_time m raw date = Inr (m3, raw3)" "parse_modifier (m3, raw3) = Inr (m4, raw4)"
    by auto
  from andThen_Inr[OF c3(1)[unfolded through_time_def]] obtain m2 raw2
    where c2: "through_station m raw = Inr (m2, raw2)" "parse_time date (m2, raw2) = Inr (m3, raw3)"
    by auto
  from andThen_Inr[OF c2(1)[unfolded through_station_def]] obtain m1 raw1
    where c1: "parse_type (m, raw) = Inr (m1, raw1)" "parse_station (m1, raw1) = Inr (m2, raw2)"
    by auto
  from parse_type_Inr[OF c1(1)] have s1: "\<forall>n. parse_type (n, raw) = Inr (n, raw1)" by simp
  from parse_station_Inr[OF c1(2)] obtain st
    where s2: "\<forall>n. parse_station (n, raw1) = Inr (n\<lparr>Station := st\<rparr>, raw2)" by blast
  from parse_time_Inr[OF c2(2)] obtain t
    where s3: "\<forall>n. parse_time date (n, raw2) = Inr (n\<lparr>Time := t\<rparr>, raw3)" by blast
  from parse_modifier_Inr[OF c3(2)] obtain md
    where s4: "\<forall>n. parse_modifier (n, raw3) =
       Inr (case md of None \<Rightarrow> n | Some x \<Rightarrow> n\<lparr>Mod := x\<rparr>, raw4)"
  proof
    assume a: "m4 = m3 \<and> (\<forall>n. parse_modifier (n, raw3) = Inr (n, raw4))"
    assume "\<And>md. \<forall>n. parse_modifier (n, raw3) =
       Inr (case md of None \<Rightarrow> n | Some x \<Rightarrow> n\<lparr>Mod := x\<rparr>, raw4) \<Longrightarrow> thesis"
    from this[of None] a show thesis by simp
  next
    assume "\<exists>md. m4 = m3\<lparr>Mod := md\<rparr> \<and>
       (\<forall>n. parse_modifier (n, raw3) = Inr (n\<lparr>Mod := md\<rparr>, raw4))"
    then obtain x where a: "\<forall>n. parse_modifier (n, raw3) = Inr (n\<lparr>Mod := x\<rparr>, raw4)" by blast
    assume "\<And>md. \<forall>n. parse_modifier (n, raw3) =
       Inr (case md of None \<Rightarrow> n | Some x \<Rightarrow> n\<lparr>Mod := x\<rparr>, raw4) \<Longrightarrow> thesis"
    from this[of "Some x"] a show thesis by simp
  qed
  from parse_wind_Inr[OF c4(2)] obtain w
    where s5: "\<forall>n. parse_wind (n, raw4) = Inr (n\<lparr>Wind := w\<rparr>, raw5)" by blast
  from parse_visibility_Inr[OF c5(2)] obtain v
    where s6: "\<forall>n. parse_visibility (n, raw5) = Inr (n\<lparr>Visibility := v\<rparr>, raw6)" by blast
  from parse_weather_Inr[OF c6(2)] obtain ws
    where s7: "\<forall>n. parse_weather (n, raw6) = Inr (n\<lparr>Weather := Weather n @ ws\<rparr>, raw7)"
      "map Some ws = map (weather_of raw6) (FindAllStringSubmatchIndex re_weather raw6)" by blast
  from parse_sky_Inr[OF c7(2)] obtain ss
    where s8: "\<forall>n. parse_sky (n, raw7) = Inr (n\<lparr>Sky := Sky n @ ss\<rparr>, raw8)"
      "map Inr ss = map (sky_of raw7) (FindAllStringSubmatchIndex re_sky raw7)" "ss \<noteq> []" by blast
  from parse_temp_Inr[OF c8(2)] obtain tp dp
    where s9: "\<forall>n. parse_temp (n, raw8) = Inr (n\<lparr>Temp := tp, DewPt := dp\<rparr>, raw9)" by blast
  from parse_press_Inr[OF cx] obtain p
    where s10: "\<forall>n. parse_press (n, raw9) = Inr (n\<lparr>Pressure := p\<rparr>, rawx)" by blast
  from parse_press_Inr[OF cx] cx have "rawx = raw9"
    by (auto simp: parse_press_def split: option.splits if_splits)
  with s9 s10 have s11: "\<forall>n. \<exists>raw9. parse_temp (n, raw8) = Inr (n\<lparr>Temp := tp, DewPt := dp\<rparr>, raw9) \<and>
       parse_press (n\<lparr>Temp := tp, DewPt := dp\<rparr>, raw9) =
         Inr (n\<lparr>Temp := tp, DewPt := dp, Pressure := p\<rparr>, raw9)" by simp
  from s1 s2 s3 s4 s5 s6 s7 s8 s11 show thesis by (rule that)
qed

lemma Parse_nil_detail:
  assumes "Parse m raw date = (m', nil)"
  obtains raw2 raw3 raw6 raw7 st t md w v ws ss tp dp p where
    "through_station m raw = Inr (m\<lparr>Station := st\<rparr>, raw2)"
    "parse_time date (m\<lparr>Station := st\<rparr>, raw2) = Inr (m\<lparr>Station := st, Time := t\<rparr>, raw3)"
    "\<exists>m6. through_visibility m raw date = Inr (m6, raw6)"
    "map Some ws = map (weather_of raw6) (FindAllStringSubmatchIndex re_weather raw6)"
    "\<exists>m7. through_weather m raw date = Inr (m7, raw7)"
    "map Inr ss = map (sky_of raw7) (FindAllStringSubmatchIndex re_sky raw7)"
    "ss \<noteq> []"
    "\<forall>n. Parse n raw date =
       (\<lparr>Station = st, Time = t, Mod = (case md of None \<Rightarrow> Mod n | Some x \<Rightarrow> x), Wind = w,
          Visibility = v, Weather = Weather n @ ws, Sky = Sky n @ ss, Temp = tp, DewPt = dp,
          Pressure = p\<rparr>, nil)"
proof -
  from assms obtain raw1 raw2 raw3 raw4 raw5 raw6 raw7 raw8 st t md w v ws ss tp dp p where s:
    "\<forall>n. parse_type (n, raw) = Inr (n, raw1)"
    "\<forall>n. parse_station (n, raw1) = Inr (n\<lparr>Station := st\<rparr>, raw2)"
    "\<forall>n. parse_time date (n, raw2) = Inr (n\<lparr>Time := t\<rparr>, raw3)"
    "\<forall>n. parse_modifier (n, raw3) = Inr (case md of None \<Rightarrow> n | Some x \<Rightarrow> n\<lparr>Mod := x\<rparr>, raw4)"
    "\<forall>n. parse_wind (n, raw4) = Inr (n\<lparr>Wind := w\<rparr>, raw5)"
    "\<forall>n. parse_visibility (n, raw5) = Inr (n\<lparr>Visibility := v\<rparr>, raw6)"
    "\<forall>n. parse_weather (n, raw6) = Inr (n\<lparr>Weather := Weather n @ ws\<rparr>, raw7)"
    "map Some ws = map (weather_of raw6) (FindAllStringSubmatchIndex re_weather raw6)"
    "\<forall>n. parse_sky (n, raw7) = Inr (n\<lparr>Sky := Sky n @ ss\<rparr>, raw8)"
    "map Inr ss = map (sky_of raw7) (FindAllStringSubmatchIndex re_sky raw7)"
    "ss \<noteq> []"
    "\<forall>n. \<exists>raw9. parse_temp (n, raw8) = Inr (n\<lparr>Temp := tp, DewPt := dp\<rparr>, raw9) \<and>
       parse_press (n\<lparr>Temp := tp, DewPt := dp\<rparr>, raw9) =
         Inr (n\<lparr>Temp := tp, DewPt := dp, Pressure := p\<rparr>, raw9)"
    by (rule Parse_nil_trace)
  have through4: "through_modifier n raw date =
      Inr (case md of None \<Rightarrow> n\<lparr>Station := st, Time := t\<rparr>
       | Some x \<Rightarrow> n\<lparr>Station := st, Time := t, Mod := x\<rparr>, raw4)" for n
    using s(1-4)
    by (cases md) (simp_all add: through_modifier_def through_time_def through_station_def andThen_def)
  have through6: "through_visibility n raw date =
      Inr ((case md of None \<Rightarrow> n\<lparr>Station := st, Time := t\<rparr>
       | Some x \<Rightarrow> n\<lparr>Station := st, Time := t, Mod := x\<rparr>)\<lparr>Wind := w, Visibility := v\<rparr>, raw6)" for n
    using through4[of n] s(5,6)
    by (cases md) (simp_all add: through_visibility_def through_wind_def andThen_def)
  have through7: "through_weather n raw date =
      Inr ((case md of None \<Rightarrow> n\<lparr>Station := st, Time := t\<rparr>
       | Some x \<Rightarrow> n\<lparr>Station := st, Time := t, Mod := x\<rparr>)\<lparr>Wind := w, Visibility := v,
         Weather := Weather n @ ws\<rparr>, raw7)" for n
    using through6[of n] s(7) by (cases md) (simp_all add: through_weather_def andThen_def)
  have "Parse n raw date =
       (\<lparr>Station = st, Time = t, Mod = (case md of None \<Rightarrow> Mod n | Some x \<Rightarrow> x), Wind = w,
          Visibility = v, Weather = Weather n @ ws, Sky = Sky n @ ss, Temp = tp, DewPt = dp,
          Pressure = p\<rparr>, nil)" for n
  proof -
    let ?n8 = "(case md of None \<Rightarrow> n\<lparr>Station := st, Time := t\<rparr>
       | Some x \<Rightarrow> n\<lparr>Station := st, Time := t, Mod := x\<rparr>)\<lparr>Wind := w, Visibility := v,
         Weather := Weather n @ ws, Sky := Sky n @ ss\<rparr>"
    from through7[of n] s(9) have 8: "through_sky n raw date = Inr (?n8, raw8)"
      by (cases md) (simp_all add: through_sky_def andThen_def)
    from s(12) obtain raw9 where "parse_temp (?n8, raw8) = Inr (?n8\<lparr>Temp := tp, DewPt := dp\<rparr>, raw9)"
      "parse_press (?n8\<lparr>Temp := tp, DewPt := dp\<rparr>, raw9) =
         Inr (?n8\<lparr>Temp := tp, DewPt := dp, Pressure := p\<rparr>, raw9)" by blast
    with 8 have "Parse n raw date = (?n8\<lparr>Temp := tp, DewPt := dp, Pressure := p\<rparr>, nil)"
      by (simp add: Parse_def through_temp_def andThen_def)
    then show ?thesis by (cases md; cases n) simp_all
  qed
  moreover from s(1,2) have "through_station m raw = Inr (m\<lparr>Station := st\<rparr>, raw2)"
    by (simp add: through_station_def andThen_def)
  moreover from s(3) have "parse_time date (m\<lparr>Station := st\<rparr>, raw2) =
      Inr (m\<lparr>Station := st, Time := t\<rparr>, raw3)" by simp
  moreover from through6[of m] have "\<exists>m6. through_visibility m raw date = Inr (m6, raw6)" by simp
  moreover from through7[of m] have "\<exists>m7. through_weather m raw date = Inr (m7, raw7)" by simp
  ultimately show thesis using s(8,10,11) that by blast
qed

lemma Parse_nil_fill:
  assumes "Parse m raw date = (m', nil)"
  shows "\<exists>st t md w v ws ss tp dp p. ss \<noteq> [] \<and>
    (\<forall>n. Parse n raw date =
       (\<lparr>Station = st, Time = t, Mod = (case md of None \<Rightarrow> Mod n | Some x \<Rightarrow> x), Wind = w,
          Visibility = v, Weather = Weather n @ ws, Sky = Sky n @ ss, Temp = tp, DewPt = dp,
          Pressure = p\<rparr>, nil))"
  using Parse_nil_detail[OF assms] by metis

lemma Parse_failure:
  assumes "Parse m raw date = (m', e)" "e \<noteq> nil"
  shows "if e = station_error then m' = m
         else e = panic \<or> (length (Station m') = 4 \<and> Pressure m' = Pressure m)"
proof (cases "through_temp m raw date")
  case (Inl r)
  with assms(1) have "r = (m', e)" by (simp add: Parse_def andThen_def)
  with Inl stage_inv_temp[of m raw date] show ?thesis by (simp add: stage_inv_def)
next
  case (Inr c)
  obtain m9 raw9 where c: "c = (m9, raw9)" by (cases c)
  with Inr stage_inv_temp[of m raw date] have m9: "length (Station m9) = 4" "Pressure m9 = Pressure m"
    by (simp_all add: stage_inv_def)
  show ?thesis
  proof (cases "parse_press (m9, raw9)")
    case (Inl r)
    with assms(1) Inr c have "parse_press (m9, raw9) = Inl (m', e)"
      by (simp add: Parse_def andThen_def)
    from parse_press_Inl[OF this] m9 show ?thesis by (simp add: ends_call_def)
  next
    case r: (Inr c')
    with assms Inr c show ?thesis by (simp add: Parse_def andThen_def split: prod.splits)
  qed
qed

lemma sem_nogroups:
  assumes "sem r t t'" "groups r = {}"
  shows "caps t' = caps t"
proof (rule nth_equalityI)
  show "length (caps t') = length (caps t)" by (rule sem_length_caps[OF assms(1)])
next
  fix i
  from sem_frame[OF assms(1), of i] assms(2) show "caps t' ! i = caps t ! i" by simp
qed

lemma sem_Grp_fixed:
  assumes "sem (Grp n a) t t'" "fixedw a" "groups a = {}"
  obtains w where "rest t = w @ rest t'" "length w = width a" "set w \<subseteq> chars a"
    "pos t' = pos t + int (width a)"
    "caps t' = (caps t)[2 * n := pos t, 2 * n + 1 := pos t + int (width a)]"
proof -
  from assms(1) obtain v where v: "sem a t v"
    "t' = v\<lparr>caps := (caps v)[2 * n := pos t, 2 * n + 1 := pos v]\<rparr>" by auto
  from sem_fixed[OF v(1) assms(2)] obtain w where w: "rest t = w @ rest v" "length w = width a"
    "set w \<subseteq> chars a" "pos v = pos t + int (width a)" by blast
  from sem_nogroups[OF v(1) assms(3)] have "caps v = caps t" .
  with v(2) w show ?thesis by (intro that[of w]) simp_all
qed

lemma chars_digit: "chars digit = Collect isDigit"
  unfolding digit_def isDigit_def chars.simps by (rule Collect_mem_eq[symmetric])

lemma digits_isDigit: "set w \<subseteq> chars digit \<Longrightarrow> list_all isDigit w"
  unfolding chars_digit by (auto simp: list_all_iff)

lemma Find_anchored_at:
  assumes "r = Seq Bol r'" "FindStringSubmatchIndex r s = Some idx"
  obtains t' where "sem r' (start r 0 s) t'" "idx = (caps t')[0 := 0, 1 := pos t']"
  using Find_anchored[of r' s idx] assms by auto

lemma sem_SeqE:
  assumes "sem (Seq a b) t t'"
  obtains u where "sem a t u" "sem b u t'"
  using assms by auto

lemma caps_time: "replicate (2 * (numSubexp re_time + 1)) (- 1 :: int) = [-1, -1, -1, -1, -1, -1, -1, -1]"
  by code_simp

lemma start_time: "start re_time p s = \<lparr>pos = p, rest = s, caps = [-1, -1, -1, -1, -1, -1, -1, -1]\<rparr>"
  by (simp only: start_def caps_time)

lemma Find_time:
  assumes "FindStringSubmatchIndex re_time raw = Some idx"
  obtains dd hh mm sfx where "raw = dd @ hh @ mm @ sfx"
    "length dd = 2" "length hh = 2" "length mm = 2"
    "list_all isDigit dd" "list_all isDigit hh" "list_all isDigit mm"
    "idx ! 2 = 0" "idx ! 3 = 2" "idx ! 4 = 2" "idx ! 5 = 4" "idx ! 6 = 4" "idx ! 7 = 6"
proof -
  let ?t0 = "start re_time 0 raw"
  let ?dd = "Seq digit digit"
  let ?tail = "Seq (opt (lit ''Z'')) spaces"
  from Find_anchored_at[OF re_time_def assms] obtain t'
    where t': "sem (Seq (Grp 1 ?dd) (Seq (Grp 2 ?dd) (Seq (Grp 3 ?dd) ?tail))) ?t0 t'"
      "idx = (caps t')[0 := 0, 1 := pos t']"
    by blast
  from t'(1) obtain u1 where u1: "sem (Grp 1 ?dd) ?t0 u1"
    "sem (Seq (Grp 2 ?dd) (Seq (Grp 3 ?dd) ?tail)) u1 t'" by (rule sem_SeqE)
  from u1(2) obtain u2 where u2: "sem (Grp 2 ?dd) u1 u2"
    "sem (Seq (Grp 3 ?dd) ?tail) u2 t'" by (rule sem_SeqE)
  from u2(2) obtain u3 where u3: "sem (Grp 3 ?dd) u2 u3" "sem ?tail u3 t'" by (rule sem_SeqE)
  note u = u1(1) u2(1) u3
  have fx: "fixedw ?dd" "groups ?dd = {}" by simp_all
  have wd: "int (width ?dd) = 2" by simp
  have dg: "list_all isDigit w" if "set w \<subseteq> chars ?dd" for w
    using that by (intro digits_isDigit) simp
  from u(1) fx obtain dd where dd0: "rest ?t0 = dd @ rest u1" "length dd = width ?dd"
    "set dd \<subseteq> chars ?dd" "pos u1 = pos ?t0 + int (width ?dd)"
    "caps u1 = (caps ?t0)[2 * 1 := pos ?t0, 2 * 1 + 1 := pos ?t0 + int (width ?dd)]"
    by (rule sem_Grp_fixed)
  from dd0(2,4,5) dg[OF dd0(3)] have dd: "length dd = 2" "list_all isDigit dd" "pos u1 = 2"
    "caps u1 = [-1, -1, 0, 2, -1, -1, -1, -1]"
    unfolding wd by (simp_all add: start_time)
  from u(2) fx obtain hh where hh0: "rest u1 = hh @ rest u2" "length hh = width ?dd"
    "set hh \<subseteq> chars ?dd" "pos u2 = pos u1 + int (width ?dd)"
    "caps u2 = (caps u1)[2 * 2 := pos u1, 2 * 2 + 1 := pos u1 + int (width ?dd)]"
    by (rule sem_Grp_fixed)
  from hh0(2,4,5) dg[OF hh0(3)] dd(3,4) have hh: "length hh = 2" "list_all isDigit hh" "pos u2 = 4"
    "caps u2 = [-1, -1, 0, 2, 2, 4, -1, -1]"
    unfolding wd by simp_all
  from u(3) fx obtain mm where mm0: "rest u2 = mm @ rest u3" "length mm = width ?dd"
    "set mm \<subseteq> chars ?dd" "pos u3 = pos u2 + int (width ?dd)"
    "caps u3 = (caps u2)[2 * 3 := pos u2, 2 * 3 + 1 := pos u2 + int (width ?dd)]"
    by (rule sem_Grp_fixed)
  from mm0(2,4,5) dg[OF mm0(3)] hh(3,4) have mm: "length mm = 2" "list_all isDigit mm" "pos u3 = 6"
    "caps u3 = [-1, -1, 0, 2, 2, 4, 4, 6]"
    unfolding wd by simp_all
  have "groups ?tail = {}" by simp
  from sem_nogroups[OF u(4) this] mm(4) t'(2)
  have "idx ! 2 = 0" "idx ! 3 = 2" "idx ! 4 = 2" "idx ! 5 = 4" "idx ! 6 = 4" "idx ! 7 = 6"
    by simp_all
  moreover from dd0(1) hh0(1) mm0(1) have "raw = dd @ hh @ mm @ rest u3"
    by (simp add: start_time)
  ultimately show ?thesis
    using dd(1,2) hh(1,2) mm(1,2) by (intro that[of dd hh mm "rest u3"])
qed

lemma parse_time_digits:
  assumes "parse_time rawDate (m, raw) = Inr (m', raw')"
  shows "\<exists>t dd hh mm sfx. time_Parse rawDate = Some t \<and> raw = dd @ hh @ mm @ sfx \<and>
    length dd = 2 \<and> length hh = 2 \<and> length mm = 2 \<and> list_all isDigit (dd @ hh @ mm) \<and>
    m' = m\<lparr>Time := Date (Year t) (Month t) (decimal dd) (decimal hh) (decimal mm)\<rparr>"
proof -
  from assms obtain idx t sd sh sm day hour minute where p:
    "FindStringSubmatchIndex re_time raw = Some idx" "time_Parse rawDate = Some t"
    "slice raw (idx ! 2) (idx ! 3) = Some sd" "Atoi sd = Some day"
    "slice raw (idx ! 4) (idx ! 5) = Some sh" "Atoi sh = Some hour"
    "slice raw (idx ! 6) (idx ! 7) = Some sm" "Atoi sm = Some minute"
    "m' = m\<lparr>Time := Date (Year t) (Month t) day hour minute\<rparr>"
    by (auto simp: parse_time_def advance_def split: option.splits)
  from Find_time[OF p(1)] obtain dd hh mm sfx where f: "raw = dd @ hh @ mm @ sfx"
    "length dd = 2" "length hh = 2" "length mm = 2"
    "list_all isDigit dd" "list_all isDigit hh" "list_all isDigit mm"
    "idx ! 2 = 0" "idx ! 3 = 2" "idx ! 4 = 2" "idx ! 5 = 4" "idx ! 6 = 4" "idx ! 7 = 6"
    by blast
  from f(1-4) have "slice raw 0 2 = Some dd" "slice raw 2 4 = Some hh" "slice raw 4 6 = Some mm"
    by (simp_all add: slice_def)
  with p(3,5,7) f(8-13) have "sd = dd" "sh = hh" "sm = mm" by simp_all
  moreover from f(2-7) have "Atoi dd = Some (decimal dd)" "Atoi hh = Some (decimal hh)"
    "Atoi mm = Some (decimal mm)" by (auto intro!: Atoi_digits)
  ultimately have "day = decimal dd" "hour = decimal hh" "minute = decimal mm"
    using p(4,6,8) by simp_all
  with p(2,9) f(1-7) show ?thesis by auto
qed

lemma parse_time_same_month:
  assumes "time_Parse d1 = Some t1" "time_Parse d2 = Some t2" "Year t1 = Year t2" "Month t1 = Month t2"
  shows "parse_time d1 c = parse_time d2 c"
  using assms by (cases c) (simp add: parse_time_def split: option.splits)

lemma Parse_same_month:
  assumes "time_Parse d1 = Some t1" "time_Parse d2 = Some t2" "Year t1 = Year t2" "Month t1 = Month t2"
  shows "Parse m raw d1 = Parse m raw d2"
proof -
  from parse_time_same_month[OF assms] have "parse_time d1 = parse_time d2" by (rule ext)
  then show ?thesis
    by (simp add: Parse_def through_temp_def through_sky_def through_weather_def
        through_visibility_def through_wind_def through_modifier_def through_time_def)
qed

text \<open>The steps after the wind step leave the wind alone, however they end.\<close>

definition wind_is :: "Wind \<Rightarrow> (Metar \<times> outcome) + cursor \<Rightarrow> bool" where
  "wind_is w x = (case x of Inl (m', e) \<Rightarrow> Wind m' = w | Inr (m1, raw1) \<Rightarrow> Wind m1 = w)"

lemma wind_is_andThen:
  assumes "wind_is w x"
    and "\<And>m1 raw1 m' e. f (m1, raw1) = Inl (m', e) \<Longrightarrow> Wind m' = Wind m1"
    and "\<And>m1 raw1 m2 raw2. f (m1, raw1) = Inr (m2, raw2) \<Longrightarrow> Wind m2 = Wind m1"
  shows "wind_is w (andThen x f)"
proof (cases x)
  case (Inl r)
  with assms(1) show ?thesis by (simp add: andThen_def)
next
  case (Inr c)
  obtain m1 raw1 where c: "c = (m1, raw1)" by (cases c)
  show ?thesis
  proof (cases "f (m1, raw1)")
    case (Inl r)
    obtain m' e where r: "r = (m', e)" by (cases r)
    from assms(2)[of m1 raw1 m' e] Inl r have "Wind m' = Wind m1" by simp
    with assms(1) Inr c Inl r show ?thesis
      by (auto simp: andThen_def wind_is_def)
  next
    case r: (Inr c')
    obtain m2 raw2 where c': "c' = (m2, raw2)" by (cases c')
    from assms(3)[of m1 raw1 m2 raw2] r c' have "Wind m2 = Wind m1" by simp
    with assms(1) Inr c r c' show ?thesis
      by (auto simp: andThen_def wind_is_def)
  qed
qed

lemma parse_visibility_Wind: "parse_visibility (m, raw) = Inl (m', e) \<Longrightarrow> Wind m' = Wind m"
  by (auto simp: parse_visibility_def advance_def split: option.splits if_splits)

lemma parse_weather_Wind:
  assumes "parse_weather (m, raw) = Inl (m', e)"
  shows "Wind m' = Wind m"
proof (cases "FindAllStringSubmatchIndex re_weather raw")
  case Nil
  with assms show ?thesis by (simp add: parse_weather_def)
next
  case (Cons idx idxs)
  show ?thesis
  proof (cases "weather_loop raw (idx # idxs) m")
    case (Inl r)
    with assms Cons have "weather_loop raw (idx # idxs) m = Inl (m', e)"
      by (simp add: parse_weather_def del: weather_loop.simps)
    from weather_loop_Inl[OF this] show ?thesis by auto
  next
    case (Inr m1)
    with assms Cons have "advance m1 raw (last (idx # idxs)) = Inl (m', e)"
      by (simp add: parse_weather_def del: weather_loop.simps)
    from advance_Inl[OF this] weather_loop_Inr[OF Inr] show ?thesis by auto
  qed
qed

lemma parse_sky_Wind:
  assumes "parse_sky (m, raw) = Inl (m', e)"
  shows "Wind m' = Wind m"
proof (cases "FindAllStringSubmatchIndex re_sky raw")
  case Nil
  with assms show ?thesis by (auto simp: parse_sky_def)
next
  case (Cons idx idxs)
  show ?thesis
  proof (cases "sky_loop raw (idx # idxs) m")
    case (Inl r)
    with assms Cons have "sky_loop raw (idx # idxs) m = Inl (m', e)"
      by (simp add: parse_sky_def del: sky_loop.simps)
    from sky_loop_Inl[OF this] show ?thesis by auto
  next
    case (Inr m1)
    with assms Cons have "advance m1 raw (last (idx # idxs)) = Inl (m', e)"
      by (simp add: parse_sky_def del: sky_loop.simps)
    from advance_Inl[OF this] sky_loop_Inr[OF Inr] show ?thesis by auto
  qed
qed

lemma parse_temp_Wind: "parse_temp (m, raw) = Inl (m', e) \<Longrightarrow> Wind m' = Wind m"
  by (auto simp: parse_temp_def advance_def split: option.splits)

lemma parse_press_Wind: "parse_press (m, raw) = Inl (m', e) \<Longrightarrow> Wind m' = Wind m"
  by (auto simp: parse_press_def split: option.splits if_splits)

lemma Parse_keeps_Wind:
  assumes "through_wind m raw date = Inr (m5, raw5)" "Parse m raw date = (m', e)"
  shows "Wind m' = Wind m5"
proof -
  from assms(1) have "wind_is (Wind m5) (through_wind m raw date)" by (simp add: wind_is_def)
  then have "wind_is (Wind m5) (andThen (through_temp m raw date) parse_press)"
    unfolding through_temp_def through_sky_def through_weather_def through_visibility_def
    by (intro wind_is_andThen)
      (auto dest: parse_visibility_Wind parse_weather_Wind parse_sky_Wind parse_temp_Wind
        parse_press_Wind
        dest!: parse_visibility_Inr parse_weather_Inr parse_sky_Inr parse_temp_Inr parse_press_Inr)
  with assms(2) show ?thesis
    by (auto simp: Parse_def wind_is_def split: sum.splits)
qed

lemma caps_wind:
  "replicate (2 * (numSubexp re_wind + 1)) (- 1 :: int) =
     [-1, -1, -1, -1, -1, -1, -1, -1, -1, -1, -1, -1, -1, -1, -1, -1, -1, -1]"
  by code_simp

lemma start_wind:
  "start re_wind p s = \<lparr>pos = p, rest = s,
     caps = [-1, -1, -1, -1, -1, -1, -1, -1, -1, -1, -1, -1, -1, -1, -1, -1, -1, -1]\<rparr>"
  by (simp only: start_def caps_wind)

lemma sem_spaces_one: "sem spaces \<lparr>pos = p, rest = CHR '' '' # r, caps = c\<rparr> \<lparr>pos = p + 1, rest = r, caps = c\<rparr>"
  by (auto simp: spaces_def plus_def space_def intro: iter_done)

lemma sem_wind_tail_skip:
  "sem wind_tail \<lparr>pos = p, rest = CHR '' '' # r, caps = c\<rparr> \<lparr>pos = p + 1, rest = r, caps = c\<rparr>"
  unfolding wind_tail_def opt_def sem.simps using sem_spaces_one by blast


lemma sem_optE:
  assumes "sem (opt a) t t'"
  obtains "t' = t" | "sem a t t'"
  using assms by (auto simp: opt_def)

lemma sem_GrpE:
  assumes "sem (Grp n a) t t'"
  obtains v where "sem a t v" "t' = v\<lparr>caps := (caps v)[2 * n := pos t, 2 * n + 1 := pos v]\<rparr>"
  using assms by auto

lemma within_pos: "within raw t \<Longrightarrow> 0 \<le> pos t \<and> pos t \<le> int (length raw)"
  by (simp add: within_def)

text \<open>
  A group of a fixed number of digits, at most 18: the guarded conversion of its capture
  succeeds, whatever index array carries the two bounds.
\<close>

lemma converted_digits:
  assumes "sem (Grp n a) t t'" "fixedw a" "groups a = {}" "chars a \<subseteq> chars digit"
    "0 < width a" "width a \<le> 18" "within raw t" "2 * n + 1 < length (caps t)"
    "idx ! (2 * n) = caps t' ! (2 * n)" "idx ! (2 * n + 1) = caps t' ! (2 * n + 1)"
  shows "\<exists>x. rest t = x @ rest t' \<and> length x = width a \<and> list_all isDigit x \<and>
    converted raw idx (2 * n) msg = Inr (decimal x)"
proof -
  from assms(1-3) obtain x where x: "rest t = x @ rest t'" "length x = width a"
    "set x \<subseteq> chars a" "pos t' = pos t + int (width a)"
    "caps t' = (caps t)[2 * n := pos t, 2 * n + 1 := pos t + int (width a)]"
    by (rule sem_Grp_fixed)
  from x(3) assms(4) have d: "list_all isDigit x" by (intro digits_isDigit) auto
  from x(5) assms(8-10) have i: "idx ! (2 * n) = pos t" "idx ! (2 * n + 1) = pos t + int (length x)"
    by (simp_all add: x(2))
  from slice_within[OF assms(7) x(1)] i
  have s: "slice raw (idx ! (2 * n)) (idx ! (2 * n + 1)) = Some x" by simp
  from within_pos[OF assms(7)] i x(2) assms(5)
  have ne: "idx ! (2 * n) \<noteq> - 1" "idx ! (2 * n + 1) \<noteq> - 1" by simp_all
  from d x(2) assms(5,6) have "Atoi x = Some (decimal x)" by (intro Atoi_digits) auto
  with s ne have "converted raw idx (2 * n) msg = Inr (decimal x)" by (simp add: converted_def)
  with x(1,2) d show ?thesis by blast
qed

lemma converted_absent: "idx ! a = - 1 \<Longrightarrow> converted raw idx a msg = Inr 0"
  by (simp add: converted_def)

lemma groups_wind_tail: "groups wind_tail = {6, 7, 8}"
  by (auto simp: wind_tail_def)

text \<open>
  The tail of the wind pattern on text within \<open>raw\<close>: the variable range is either absent
  or two groups of three digits, so both conversions succeed.
\<close>

lemma wind_tail_range:
  assumes "sem wind_tail t t'" "within raw t" "length (caps t) = 18"
    "caps t ! 14 = - 1" "caps t ! 16 = - 1"
    "idx ! 14 = caps t' ! 14" "idx ! 15 = caps t' ! 15" "idx ! 16 = caps t' ! 16"
    "idx ! 17 = caps t' ! 17"
  shows "\<exists>a b. converted raw idx 14 msg1 = Inr a \<and> converted raw idx 16 msg2 = Inr b"
proof -
  let ?ddd = "rep 3 3 digit"
  let ?X = "Seq spaces (Seq (Grp 7 ?ddd) (Seq (lit ''V'') (Grp 8 ?ddd)))"
  from assms(1) obtain u where u: "sem (opt (Grp 6 ?X)) t u" "sem spaces u t'"
    unfolding wind_tail_def by (rule sem_SeqE)
  from sem_nogroups[OF u(2)] have c: "caps t' = caps u" by simp
  from u(1) show ?thesis
  proof (cases rule: sem_optE)
    case 1
    with c assms(4,5,6,8) have "idx ! 14 = - 1" "idx ! 16 = - 1" by simp_all
    then show ?thesis by (simp add: converted_absent)
  next
    case 2
    then obtain v where v: "sem ?X t v"
      "u = v\<lparr>caps := (caps v)[2 * 6 := pos t, 2 * 6 + 1 := pos v]\<rparr>" by (rule sem_GrpE)
    from v(1) obtain u1 where u1: "sem spaces t u1"
      "sem (Seq (Grp 7 ?ddd) (Seq (lit ''V'') (Grp 8 ?ddd))) u1 v" by (rule sem_SeqE)
    from u1(2) obtain u2 where u2: "sem (Grp 7 ?ddd) u1 u2"
      "sem (Seq (lit ''V'') (Grp 8 ?ddd)) u2 v" by (rule sem_SeqE)
    from u2(2) obtain u3 where u3: "sem (lit ''V'') u2 u3" "sem (Grp 8 ?ddd) u3 v"
      by (rule sem_SeqE)
    have fx: "fixedw ?ddd" "groups ?ddd = {}" "chars ?ddd \<subseteq> chars digit" "0 < width ?ddd"
      "width ?ddd \<le> 18" using chars_rep[of 3 3 digit] by simp_all
    from sem_within[OF u1(1) assms(2)] have w1: "within raw u1" .
    from sem_within[OF u2(1) w1] have w2: "within raw u2" .
    from sem_within[OF u3(1) w2] have w3: "within raw u3" .
    from sem_length_caps[OF u1(1)] assms(3) have l1: "length (caps u1) = 18" by simp
    from sem_length_caps[OF u2(1)] l1 have l2: "length (caps u2) = 18" by simp
    from sem_length_caps[OF u3(1)] l2 have l3: "length (caps u3) = 18" by simp
    from sem_length_caps[OF u3(2)] l3 have lv: "length (caps v) = 18" by simp
    have "caps v ! 14 = caps u2 ! 14" "caps v ! 15 = caps u2 ! 15"
      using sem_frame[OF u2(2), of 14] sem_frame[OF u2(2), of 15] by simp_all
    with v(2) c lv assms(6,7) have i7: "idx ! (2 * 7) = caps u2 ! (2 * 7)"
      "idx ! (2 * 7 + 1) = caps u2 ! (2 * 7 + 1)" by simp_all
    from v(2) c lv assms(8,9) have i8: "idx ! (2 * 8) = caps v ! (2 * 8)"
      "idx ! (2 * 8 + 1) = caps v ! (2 * 8 + 1)" by simp_all
    from converted_digits[OF u2(1) fx w1 _ i7, of msg1] l1
    obtain a where "converted raw idx 14 msg1 = Inr a" by auto
    moreover from converted_digits[OF u3(2) fx w3 _ i8, of msg2] l3
    obtain b where "converted raw idx 16 msg2 = Inr b" by auto
    ultimately show ?thesis by blast
  qed
qed

lemma run_re_wind:
  "run re_wind k t = (if pos t = 0 then run wind_head (run wind_tail k) t else None)"
  by (simp add: re_wind_def)

lemma Find_wind_VRB05KT:
  obtains y a b where "FindStringSubmatchIndex re_wind (''VRB05KT '' @ sfx) = Some y"
    "0 \<le> y ! 1" "y ! 1 \<le> int (length (''VRB05KT '' @ sfx))"
    "y ! 2 = 0" "y ! 3 = 3" "y ! 4 = 3" "y ! 5 = 5" "y ! 8 = - 1"
    "converted (''VRB05KT '' @ sfx) y 14
       ''Error converting variable from wind direction in metar'' = Inr a"
    "converted (''VRB05KT '' @ sfx) y 16
       ''Error converting variable to wind direction in metar'' = Inr b"
proof -
  let ?raw = "''VRB05KT '' @ sfx"
  let ?c = "[-1, -1, 0, 3, 3, 5, -1, -1, -1, -1, 5, 7, -1, -1, -1, -1, -1, -1 :: int]"
  let ?T = "\<lparr>pos = 7, rest = CHR '' '' # sfx, caps = ?c\<rparr>"
  have w: "within ?raw ?T" by (simp add: within_def)
  from accept_run[where p = 0, OF sem_wind_tail_skip[of 7 sfx ?c]] obtain t'
    where t': "sem wind_tail ?T t'"
      "run wind_tail (accept 0) ?T = Some ((caps t')[0 := 0, 1 := pos t'])" by blast
  let ?y = "(caps t')[0 := 0, 1 := pos t']"
  from sem_length_caps[OF t'(1)] have l: "length (caps t') = 18" by simp
  have fr: "caps t' ! i = ?c ! i" if "i div 2 \<notin> {6, 7, 8}" for i
    using sem_frame[OF t'(1), of i] that by (simp add: groups_wind_tail)
  have y: "?y ! 2 = 0" "?y ! 3 = 3" "?y ! 4 = 3" "?y ! 5 = 5" "?y ! 8 = - 1"
    using fr[of 2] fr[of 3] fr[of 4] fr[of 5] fr[of 8] l by simp_all
  from within_pos[OF sem_within[OF t'(1) w]] l
  have b: "0 \<le> ?y ! 1" "?y ! 1 \<le> int (length ?raw)" by simp_all
  have "\<exists>a b.
      converted ?raw ?y 14 ''Error converting variable from wind direction in metar'' = Inr a \<and>
      converted ?raw ?y 16 ''Error converting variable to wind direction in metar'' = Inr b"
    using l by (intro wind_tail_range[OF t'(1) w]) simp_all
  then obtain a b where
    ab: "converted ?raw ?y 14 ''Error converting variable from wind direction in metar'' = Inr a"
    "converted ?raw ?y 16 ''Error converting variable to wind direction in metar'' = Inr b"
    by blast
  from t'(2) have "run re_wind (accept 0) (start re_wind 0 ?raw) = Some ?y"
    unfolding run_re_wind start_wind
    by (simp add: wind_head_def opt_def rep_def digit_def lits_def)
  then have F: "FindStringSubmatchIndex re_wind ?raw = Some ?y"
    unfolding FindStringSubmatchIndex_def by (rule execute_first)
  from F b y ab show ?thesis by (rule that)
qed

lemma parse_wind_VRB05KT:
  "\<exists>a b raw'. parse_wind (m, ''VRB05KT '' @ sfx) =
     Inr (m\<lparr>Wind := \<lparr>Vrb = True, Dir = 0, Spd = 5, Gust = 0, VarFrom = a, VarTo = b\<rparr>\<rparr>, raw')"
proof -
  obtain y a b where y: "FindStringSubmatchIndex re_wind (''VRB05KT '' @ sfx) = Some y"
    "0 \<le> y ! 1" "y ! 1 \<le> int (length (''VRB05KT '' @ sfx))"
    "y ! 2 = 0" "y ! 3 = 3" "y ! 4 = 3" "y ! 5 = 5" "y ! 8 = - 1"
    "converted (''VRB05KT '' @ sfx) y 14
       ''Error converting variable from wind direction in metar'' = Inr a"
    "converted (''VRB05KT '' @ sfx) y 16
       ''Error converting variable to wind direction in metar'' = Inr b"
    by (rule Find_wind_VRB05KT)
  from y(4,5) have d: "wind_dir (''VRB05KT '' @ sfx) y = Inr (True, 0)"
    by (simp add: wind_dir_def slice_def)
  from y(6,7) have s: "converted (''VRB05KT '' @ sfx) y 4 ''Error converting wind speed in metar'' = Inr 5"
    by (simp add: converted_def slice_def Atoi_def decimal_def digitVal_def isDigit_def)
  from y(8) have g: "converted (''VRB05KT '' @ sfx) y 8 ''Error converting gust speed in metar'' = Inr 0"
    by (simp add: converted_def)
  from d s g y(9,10) have "wind_of (''VRB05KT '' @ sfx) y =
      Inr \<lparr>Vrb = True, Dir = 0, Spd = 5, Gust = 0, VarFrom = a, VarTo = b\<rparr>"
    by (simp add: wind_of_def)
  moreover from y(2,3) obtain raw' where "slice_from (''VRB05KT '' @ sfx) (y ! 1) = Some raw'"
    by (auto simp: slice_from_def)
  ultimately have "parse_wind (m, ''VRB05KT '' @ sfx) =
     Inr (m\<lparr>Wind := \<lparr>Vrb = True, Dir = 0, Spd = 5, Gust = 0, VarFrom = a, VarTo = b\<rparr>\<rparr>, raw')"
    using y(1) by (simp add: parse_wind_def advance_def)
  then show ?thesis by blast
qed

lemma Find_sound:
  assumes "FindStringSubmatchIndex r s = Some idx"
  obtains q t' where "q \<le> length s" "sem r (start r (int q) (drop q s)) t'"
    "idx = (caps t')[0 := int q, 1 := pos t']"
  using execute_sound[of r 0 s idx] assms by (auto simp: FindStringSubmatchIndex_def)

lemma sem_AltE:
  assumes "sem (Alt a b) t t'"
  obtains "sem a t t'" | "sem b t t'"
  using assms by auto

lemma caps_visibility:
  "replicate (2 * (numSubexp re_visibility + 1)) (- 1 :: int) =
     [-1, -1, -1, -1, -1, -1, -1, -1, -1, -1, -1, -1, -1, -1, -1, -1, -1, -1]"
  by code_simp

lemma start_visibility:
  "start re_visibility p s = \<lparr>pos = p, rest = s,
     caps = [-1, -1, -1, -1, -1, -1, -1, -1, -1, -1, -1, -1, -1, -1, -1, -1, -1, -1]\<rparr>"
  by (simp only: start_def caps_visibility)

lemma groups_vis: "groups vis_dist = {2, 3, 4}" "groups vis_distu = {5, 6, 7, 8}"
  by (auto simp: vis_dist_def vis_distu_def)

lemma chars_lits [simp]: "chars (lits ws) = (\<Union>w\<in>set ws. set w)"
  unfolding lits_def by (induction ws rule: induct_list012) auto

text \<open>The text a four-digit distance consumes is not empty and has no \<^verbatim>\<open>C\<close> in it.\<close>

lemma vis_dist_text:
  assumes "sem vis_dist t v"
  obtains x where "rest t = x @ rest v" "x \<noteq> []" "CHR ''C'' \<notin> set x"
proof -
  let ?d4 = "rep 4 4 digit"
  from sem_chars[OF assms] obtain x where x: "rest t = x @ rest v"
    "pos v = pos t + int (length x)" "set x \<subseteq> chars vis_dist" by blast
  from assms obtain u1 where u1: "sem (Grp 2 (Seq (opt (Grp 3 (lits [''M'', ''P'']))) ?d4)) t u1"
    "sem (opt (Grp 4 (alts [Seq (Cls ''NSEW'') (opt (Cls ''EW'')), lit ''NDV'']))) u1 v"
    unfolding vis_dist_def by (rule sem_SeqE)
  from u1(1) obtain u2 where u2: "sem (Seq (opt (Grp 3 (lits [''M'', ''P'']))) ?d4) t u2"
    "u1 = u2\<lparr>caps := (caps u2)[2 * 2 := pos t, 2 * 2 + 1 := pos u2]\<rparr>" by (rule sem_GrpE)
  from u2(1) obtain u3 where u3: "sem (opt (Grp 3 (lits [''M'', ''P'']))) t u3" "sem ?d4 u3 u2"
    by (rule sem_SeqE)
  have "fixedw ?d4" by simp
  from sem_width[OF u3(2) this] have "pos u2 = pos u3 + 4" by simp
  moreover from sem_consumes[OF u3(1)] have "pos t \<le> pos u3" by auto
  moreover from sem_consumes[OF u1(2)] u2(2) have "pos u2 \<le> pos v" by auto
  ultimately have "x \<noteq> []" using x(2) by auto
  moreover have "CHR ''C'' \<notin> chars vis_dist"
    using chars_rep[of 4 4 digit] by (auto simp: vis_dist_def chars_digit isDigit_def)
  with x(3) have "CHR ''C'' \<notin> set x" by auto
  ultimately show ?thesis using x(1) that by blast
qed

lemma vis_first_match:
  assumes "FindStringSubmatchIndex re_visibility raw = Some idx"
    and "idx ! 10 \<noteq> - 1 \<or> (\<exists>r. drop (nat (idx ! 0)) raw = ''CAVOK'' @ r)"
  shows "idx ! 4 = - 1"
proof -
  from assms(1) obtain q t' where q: "q \<le> length raw"
    "sem re_visibility (start re_visibility (int q) (drop q raw)) t'"
    "idx = (caps t')[0 := int q, 1 := pos t']" by (rule Find_sound)
  let ?t0 = "start re_visibility (int q) (drop q raw)"
  let ?A = "Alt vis_dist (Alt vis_distu (lit ''CAVOK''))"
  from q(2) obtain u where u: "sem (Grp 1 ?A) ?t0 u" "sem spaces u t'"
    unfolding re_visibility_def alts.simps by (rule sem_SeqE)
  from u(1) obtain v where v: "sem ?A ?t0 v"
    "u = v\<lparr>caps := (caps v)[2 * 1 := pos ?t0, 2 * 1 + 1 := pos v]\<rparr>" by (rule sem_GrpE)
  from sem_nogroups[OF u(2)] q(3) v(2) have i: "idx ! 4 = caps v ! 4" "idx ! 10 = caps v ! 10"
    by simp_all
  from sem_length_caps[OF v(1)] have "length (caps v) = 18" by (simp add: start_visibility)
  with q(3) v(2) sem_length_caps[OF u(2)] sem_nogroups[OF u(2)] have i0: "idx ! 0 = int q" by simp
  from v(1) show ?thesis
  proof (cases rule: sem_AltE)
    case 1
    from sem_frame[OF 1, of 10] have "caps v ! 10 = - 1"
      by (simp add: groups_vis start_visibility)
    with assms(2) i i0 obtain r where r: "drop q raw = ''CAVOK'' @ r" by auto
    from 1 obtain x where "rest ?t0 = x @ rest v" "x \<noteq> []" "CHR ''C'' \<notin> set x"
      by (rule vis_dist_text)
    with r show ?thesis by (cases x) (auto simp: start_visibility)
  next
    case 2
    have "groups (Alt vis_distu (lit ''CAVOK'')) = {5, 6, 7, 8}" by (simp add: groups_vis)
    with sem_frame[OF 2, of 4] i show ?thesis by (simp add: start_visibility)
  qed
qed

lemma parse_visibility_rejects:
  assumes "FindStringSubmatchIndex re_visibility raw = Some idx"
    and "idx ! 10 \<noteq> - 1 \<or> (\<exists>r. drop (nat (idx ! 0)) raw = ''CAVOK'' @ r)"
  shows "parse_visibility (m, raw) = Inl (m, Errorf ''Error parsing metar visibility'')"
  using vis_first_match[OF assms] assms(1) by (simp add: parse_visibility_def)

lemma run_re_visibility:
  "run re_visibility k t =
     run (alts [vis_dist, vis_distu, lit ''CAVOK''])
       (\<lambda>t'. run spaces k (t'\<lparr>caps := (caps t')[2 := pos t, 3 := pos t']\<rparr>)) t"
  by (simp add: re_visibility_def)

lemma Find_visibility_CAVOK:
  obtains y where "FindStringSubmatchIndex re_visibility (''CAVOK '' @ sfx) = Some y" "y ! 4 = - 1"
proof -
  let ?c = "[-1, -1, 0, 5, -1, -1, -1, -1, -1, -1, -1, -1, -1, -1, -1, -1, -1, -1 :: int]"
  let ?T = "\<lparr>pos = 5, rest = CHR '' '' # sfx, caps = ?c\<rparr>"
  from accept_run_frame[where p = 0, OF sem_spaces_one[of 5 sfx ?c]] obtain y
    where y: "run spaces (accept 0) ?T = Some y"
      "\<forall>i. 2 \<le> i \<longrightarrow> i div 2 \<notin> groups spaces \<longrightarrow> y ! i = caps ?T ! i" by blast
  from y(2) have "y ! 4 = - 1" by simp
  moreover from y(1) have "run re_visibility (accept 0) (start re_visibility 0 (''CAVOK '' @ sfx)) = Some y"
    unfolding run_re_visibility start_visibility
    by (simp add: vis_dist_def vis_distu_def opt_def rep_def digit_def lits_def plus_def)
  then have "FindStringSubmatchIndex re_visibility (''CAVOK '' @ sfx) = Some y"
    unfolding FindStringSubmatchIndex_def by (rule execute_first)
  ultimately show ?thesis using that by blast
qed

lemma Find_visibility_10SM:
  obtains y where "FindStringSubmatchIndex re_visibility (''10SM '' @ sfx) = Some y" "y ! 4 = - 1"
proof -
  let ?c = "[-1, -1, 0, 4, -1, -1, -1, -1, -1, -1, 0, 2, -1, -1, 0, 2, 2, 4 :: int]"
  let ?T = "\<lparr>pos = 4, rest = CHR '' '' # sfx, caps = ?c\<rparr>"
  from accept_run_frame[where p = 0, OF sem_spaces_one[of 4 sfx ?c]] obtain y
    where y: "run spaces (accept 0) ?T = Some y"
      "\<forall>i. 2 \<le> i \<longrightarrow> i div 2 \<notin> groups spaces \<longrightarrow> y ! i = caps ?T ! i" by blast
  from y(2) have "y ! 4 = - 1" by simp
  moreover from y(1) have "run re_visibility (accept 0) (start re_visibility 0 (''10SM '' @ sfx)) = Some y"
    unfolding run_re_visibility start_visibility
    by (simp add: vis_dist_def vis_distu_def opt_def rep_def digit_def lits_def plus_def)
  then have "FindStringSubmatchIndex re_visibility (''10SM '' @ sfx) = Some y"
    unfolding FindStringSubmatchIndex_def by (rule execute_first)
  ultimately show ?thesis using that by blast
qed

lemma class_run_unique:
  assumes "list_all P xs" "list_all P ys" "\<not> P a" "\<not> P b" "xs @ a # r = ys @ b # s"
  shows "xs = ys \<and> a = b \<and> r = s"
  using assms
proof (induction xs arbitrary: ys)
  case Nil
  then show ?case by (cases ys) auto
next
  case (Cons x xs)
  then show ?case by (cases ys) auto
qed

lemma sem_digitE:
  assumes "sem digit t u"
  obtains c r where "rest t = c # r" "isDigit c" "u = t\<lparr>pos := pos t + 1, rest := r\<rparr>"
  using assms unfolding digit_def isDigit_def sem.simps by blast

lemma sem_plus_digitE:
  assumes "sem (plus digit) t t'"
  obtains ds where "ds \<noteq> []" "list_all isDigit ds" "rest t = ds @ rest t'"
    "pos t' = pos t + int (length ds)" "caps t' = caps t"
proof -
  from sem_chars[OF assms] obtain w where w: "rest t = w @ rest t'"
    "pos t' = pos t + int (length w)" "set w \<subseteq> chars (plus digit)" by blast
  from assms obtain u where u: "sem digit t u" "sem (Star digit) u t'"
    unfolding plus_def by (rule sem_SeqE)
  from u(1) have "length (rest u) < length (rest t)" by (rule sem_digitE) simp
  moreover from sem_consumes[OF u(2)] have "length (rest t') \<le> length (rest u)" by auto
  ultimately have "w \<noteq> []" using w(1) by auto
  moreover from w(3) have "list_all isDigit w" by (simp add: digits_isDigit)
  moreover from sem_nogroups[OF assms] have "caps t' = caps t" by simp
  ultimately show ?thesis using w that by blast
qed

lemma sem_star_digits:
  "list_all isDigit ds \<Longrightarrow>
     sem (Star digit) \<lparr>pos = p, rest = ds @ r, caps = c\<rparr>
       \<lparr>pos = p + int (length ds), rest = r, caps = c\<rparr>"
proof (induction ds arbitrary: p)
  case Nil
  show ?case by (simp add: iter_done)
next
  case (Cons d ds)
  from Cons.prems have "isDigit d" by simp
  then have a: "sem digit \<lparr>pos = p, rest = (d # ds) @ r, caps = c\<rparr>
      \<lparr>pos = p + 1, rest = ds @ r, caps = c\<rparr>"
    unfolding digit_def isDigit_def sem.simps by simp
  from Cons.IH[of "p + 1"] Cons.prems
  have b: "iter (sem digit) \<lparr>pos = p + 1, rest = ds @ r, caps = c\<rparr>
      \<lparr>pos = p + int (length (d # ds)), rest = r, caps = c\<rparr>"
    by (simp add: ac_simps)
  show ?case
    unfolding sem.simps by (rule iter_step[OF a _ b]) simp
qed

lemma sem_plus_digits:
  assumes "list_all isDigit ds" "ds \<noteq> []"
  shows "sem (plus digit) \<lparr>pos = p, rest = ds @ r, caps = c\<rparr>
       \<lparr>pos = p + int (length ds), rest = r, caps = c\<rparr>"
proof -
  from assms obtain d ds' where d: "ds = d # ds'" "isDigit d" "list_all isDigit ds'"
    by (cases ds) auto
  have "sem digit \<lparr>pos = p, rest = ds @ r, caps = c\<rparr> \<lparr>pos = p + 1, rest = ds' @ r, caps = c\<rparr>"
    using d(2) unfolding d(1) digit_def isDigit_def sem.simps by simp
  moreover from sem_star_digits[OF d(3), of "p + 1" r c]
  have "sem (Star digit) \<lparr>pos = p + 1, rest = ds' @ r, caps = c\<rparr>
      \<lparr>pos = p + int (length ds), rest = r, caps = c\<rparr>"
    by (simp add: d(1) ac_simps)
  ultimately show ?thesis unfolding plus_def sem.simps(4) by blast
qed

definition sign_caps :: "string \<Rightarrow> nat \<Rightarrow> int \<Rightarrow> int list \<Rightarrow> int list" where
  "sign_caps sg g p c = (if sg = [] then c else c[2 * g := p, 2 * g + 1 := p + 1])"

lemma temp_value_signed:
  assumes "sg \<in> {[], ''M'', ''-''}" "list_all isDigit ds" "ds \<noteq> []"
  shows "sem (temp_value g) \<lparr>pos = p, rest = sg @ ds @ r, caps = c\<rparr>
    \<lparr>pos = p + int (length (sg @ ds)), rest = r,
      caps = (sign_caps sg (g + 1) p c)[2 * g := p, 2 * g + 1 := p + int (length (sg @ ds))]\<rparr>"
proof -
  let ?t = "\<lparr>pos = p, rest = sg @ ds @ r, caps = c\<rparr>"
  let ?u = "\<lparr>pos = p + int (length sg), rest = ds @ r, caps = sign_caps sg (g + 1) p c\<rparr>"
  let ?v = "\<lparr>pos = p + int (length (sg @ ds)), rest = r, caps = sign_caps sg (g + 1) p c\<rparr>"
  have "sem (opt (Grp (g + 1) (lits [''M'', ''-'']))) ?t ?u"
    using assms(1) by (auto simp: opt_def lits_def sign_caps_def)
  moreover from sem_plus_digits[OF assms(2,3), of "p + int (length sg)" r]
  have "sem (plus digit) ?u ?v" by (simp add: add.assoc)
  ultimately have "sem (Seq (opt (Grp (g + 1) (lits [''M'', ''-'']))) (plus digit)) ?t ?v"
    unfolding sem.simps(4) by blast
  then have "sem (alts [Seq (opt (Grp (g + 1) (lits [''M'', ''-'']))) (plus digit),
       lit ''//'', lit ''XX'', lit ''MM'']) ?t ?v" by simp
  then show ?thesis unfolding temp_value_def sem.simps(7) by (intro exI[of _ ?v]) simp
qed

lemma isDigit_signs [simp]: "\<not> isDigit CHR ''M''" "\<not> isDigit CHR ''-''" "\<not> isDigit CHR ''/''"
  "\<not> isDigit CHR ''X''" "\<not> isDigit CHR '' ''"
  by (simp_all add: isDigit_def)

lemma temp_value_signedE:
  assumes s: "sem (temp_value g) t u"
    and t: "rest t = sg @ ds @ r" "sg \<in> {[], ''M'', ''-''}" "list_all isDigit ds" "ds \<noteq> []"
    and r: "r = c0 # r0" "\<not> isDigit c0"
    and u: "rest u = c1 # r1" "\<not> isDigit c1"
  shows "pos u = pos t + int (length (sg @ ds)) \<and> rest u = r \<and>
    caps u = (sign_caps sg (g + 1) (pos t) (caps t))
      [2 * g := pos t, 2 * g + 1 := pos t + int (length (sg @ ds))]"
proof -
  let ?sign = "Grp (g + 1) (lits [''M'', ''-''])"
  from t(3,4) obtain d ds' where d: "ds = d # ds'" "isDigit d" by (cases ds) auto
  from s obtain v where v: "sem (alts [Seq (opt ?sign) (plus digit),
       lit ''//'', lit ''XX'', lit ''MM'']) t v"
    "u = v\<lparr>caps := (caps v)[2 * g := pos t, 2 * g + 1 := pos v]\<rparr>"
    unfolding temp_value_def by (rule sem_GrpE)
  from v(2) u have rv: "rest v = c1 # r1" by simp
  from v(1) have "sem (Seq (opt ?sign) (plus digit)) t v \<or> sem (lits [''//'', ''XX'', ''MM'']) t v"
    by (auto simp: lits_def)
  then have main: "sem (Seq (opt ?sign) (plus digit)) t v"
  proof
    assume "sem (lits [''//'', ''XX'', ''MM'']) t v"
    then obtain w r' where "w \<in> set [''//'', ''XX'', ''MM'']" "rest t = w @ r'"
      unfolding sem_lits by blast
    with t(1,2) d have False by auto
    then show ?thesis ..
  qed simp
  then obtain u1 where u1: "sem (opt ?sign) t u1" "sem (plus digit) u1 v" by (rule sem_SeqE)
  from u1(2) obtain ds1 where ds1: "ds1 \<noteq> []" "list_all isDigit ds1" "rest u1 = ds1 @ rest v"
    "pos v = pos u1 + int (length ds1)" "caps v = caps u1" by (rule sem_plus_digitE)
  from ds1(1,2) obtain e ds1' where e: "ds1 = e # ds1'" "isDigit e" by (cases ds1) auto
  from u1(1) have "pos u1 = pos t + int (length sg) \<and> rest u1 = ds @ r \<and>
      caps u1 = sign_caps sg (g + 1) (pos t) (caps t)"
  proof (cases rule: sem_optE)
    case 1
    with ds1(3) t(1) e have "e # ds1' @ rest v = sg @ ds @ r" by simp
    with t(2) e(2) have "sg = []" by auto
    with 1 t(1) show ?thesis by (simp add: sign_caps_def)
  next
    case 2
    then obtain w r' where w: "w \<in> set [''M'', ''-'']" "rest t = w @ r'"
      "u1 = t\<lparr>pos := pos t + int (length w), rest := r',
         caps := (caps t)[2 * (g + 1) := pos t, 2 * (g + 1) + 1 := pos t + int (length w)]\<rparr>"
      by (rule sem_Grp_lits)
    from w(1,2) t(1,2) d have "sg = w" "r' = ds @ r" by auto
    with w(1,3) show ?thesis by (auto simp: sign_caps_def)
  qed
  then have p: "pos u1 = pos t + int (length sg)" "rest u1 = ds @ r"
    "caps u1 = sign_caps sg (g + 1) (pos t) (caps t)" by simp_all
  from p(2) ds1(3) rv r(1) have "ds1 @ c1 # r1 = ds @ c0 # r0" by simp
  from class_run_unique[OF ds1(2) t(3) u(2) r(2) this] have "ds1 = ds" "c1 # r1 = r"
    using r(1) by simp_all
  with ds1 p rv v(2) show ?thesis by (simp add: add.assoc)
qed


lemma sem_SeqI: "sem a t u \<Longrightarrow> sem b u t' \<Longrightarrow> sem (Seq a b) t t'"
  by auto

lemma sem_spacesE:
  assumes "sem spaces t t'"
  obtains c r where "rest t = c # r" "\<not> isDigit c" "c \<noteq> CHR ''M''" "c \<noteq> CHR ''-''"
    "caps t' = caps t"
proof -
  from assms obtain u where "sem space t u" unfolding spaces_def plus_def by (rule sem_SeqE)
  then obtain c r where c: "rest t = c # r" "c \<in> set [CHR 0x09, CHR 0x0A, CHR 0x0C, CHR 0x0D, CHR '' '']"
    unfolding space_def sem.simps by blast
  from c(2) have "\<not> isDigit c" "c \<noteq> CHR ''M''" "c \<noteq> CHR ''-''" by (auto simp: isDigit_def)
  moreover from sem_nogroups[OF assms] have "caps t' = caps t" by simp
  ultimately show ?thesis using c(1) that by blast
qed

lemma caps_temp:
  "replicate (2 * (numSubexp re_temp + 1)) (- 1 :: int) = [-1, -1, -1, -1, -1, -1, -1, -1, -1, -1]"
  by code_simp

lemma start_temp:
  "start re_temp p s = \<lparr>pos = p, rest = s, caps = [-1, -1, -1, -1, -1, -1, -1, -1, -1, -1]\<rparr>"
  by (simp only: start_def caps_temp)

text \<open>
  The temperature pattern on a group of two signed numbers: an optional sign (\<^verbatim>\<open>M\<close> or
  \<^verbatim>\<open>-\<close>) and digits, a slash, the same again, and a blank. The match exists and its
  offsets are those of the two numbers and of their signs.
\<close>

lemma Find_temp_signed:
  assumes "s1 \<in> {[], ''M'', ''-''}" "list_all isDigit d1" "d1 \<noteq> []"
    "s2 \<in> {[], ''M'', ''-''}" "list_all isDigit d2" "d2 \<noteq> []"
    and raw: "raw = s1 @ d1 @ ''/'' @ s2 @ d2 @ '' '' @ sfx"
  obtains y where "FindStringSubmatchIndex re_temp raw = Some y"
    "0 \<le> y ! 1" "y ! 1 \<le> int (length raw)"
    "y ! 2 = 0" "y ! 3 = int (length (s1 @ d1))"
    "y ! 4 = (if s1 = [] then - 1 else 0)" "y ! 5 = (if s1 = [] then - 1 else 1)"
    "y ! 6 = int (length (s1 @ d1)) + 1"
    "y ! 7 = int (length (s1 @ d1)) + 1 + int (length (s2 @ d2))"
    "y ! 8 = (if s2 = [] then - 1 else int (length (s1 @ d1)) + 1)"
    "y ! 9 = (if s2 = [] then - 1 else int (length (s1 @ d1)) + 2)"
proof -
  let ?c = "[-1, -1, -1, -1, -1, -1, -1, -1, -1, -1 :: int]"
  let ?n1 = "int (length (s1 @ d1))"
  let ?n2 = "int (length (s2 @ d2))"
  let ?r2 = "CHR '' '' # sfx"
  let ?r1 = "CHR ''/'' # s2 @ d2 @ ?r2"
  let ?T = "\<lparr>pos = 0, rest = s1 @ d1 @ ?r1, caps = ?c\<rparr>"
  let ?c1 = "(sign_caps s1 2 0 ?c)[2 := 0, 3 := ?n1]"
  let ?U1 = "\<lparr>pos = ?n1, rest = ?r1, caps = ?c1\<rparr>"
  let ?U2 = "\<lparr>pos = ?n1 + 1, rest = s2 @ d2 @ ?r2, caps = ?c1\<rparr>"
  let ?c3 = "(sign_caps s2 4 (?n1 + 1) ?c1)[6 := ?n1 + 1, 7 := ?n1 + 1 + ?n2]"
  let ?U3 = "\<lparr>pos = ?n1 + 1 + ?n2, rest = ?r2, caps = ?c3\<rparr>"
  let ?U4 = "\<lparr>pos = ?n1 + 1 + ?n2 + 1, rest = sfx, caps = ?c3\<rparr>"
  have raw': "raw = s1 @ d1 @ ?r1" by (simp add: raw)
  have w: "within raw ?T" by (simp add: within_def raw')
  have a0: "sem Bol ?T ?T" by simp
  have a1: "sem (temp_value 1) ?T ?U1"
    using temp_value_signed[OF assms(1-3), of 1 0 ?r1 ?c] by (simp add: eval_nat_numeral)
  have a2: "sem (lit ''/'') ?U1 ?U2" by (simp add: sem_lit)
  have "sem (temp_value 3) ?U2 ?U3"
    using temp_value_signed[OF assms(4-6), of 3 "?n1 + 1" ?r2 ?c1] by simp
  then have a3: "sem (opt (temp_value 3)) ?U2 ?U3" by (simp add: opt_def)
  have a4: "sem spaces ?U3 ?U4" by (rule sem_spaces_one)
  have "sem re_temp ?T ?U4"
    unfolding re_temp_def by (rule sem_SeqI[OF a0 sem_SeqI[OF a1 sem_SeqI[OF a2 sem_SeqI[OF a3 a4]]]])
  from accept_run[where p = 0, OF this] obtain t'
    where t': "sem re_temp ?T t'"
      "run re_temp (accept 0) ?T = Some ((caps t')[0 := 0, 1 := pos t'])" by blast
  let ?y = "(caps t')[0 := 0, 1 := pos t']"
  from t'(2) have "run re_temp (accept 0) (start re_temp 0 raw) = Some ?y"
    by (simp only: start_temp raw')
  then have F: "FindStringSubmatchIndex re_temp raw = Some ?y"
    unfolding FindStringSubmatchIndex_def by (rule execute_first)
  from t'(1) obtain v0 where v0: "sem Bol ?T v0"
    "sem (Seq (temp_value 1) (Seq (lit ''/'') (Seq (opt (temp_value 3)) spaces))) v0 t'"
    unfolding re_temp_def by (rule sem_SeqE)
  from v0(1) have "v0 = ?T" by simp
  with v0(2) obtain u1 where u1: "sem (temp_value 1) ?T u1"
    "sem (Seq (lit ''/'') (Seq (opt (temp_value 3)) spaces)) u1 t'" by (auto elim: sem_SeqE)
  from u1(2) obtain u2 where u2: "sem (lit ''/'') u1 u2"
    "sem (Seq (opt (temp_value 3)) spaces) u2 t'" by (rule sem_SeqE)
  from u2(2) obtain u3 where u3: "sem (opt (temp_value 3)) u2 u3" "sem spaces u3 t'"
    by (rule sem_SeqE)
  from u2(1) obtain r' where r': "rest u1 = CHR ''/'' # r'"
    "u2 = u1\<lparr>pos := pos u1 + 1, rest := r'\<rparr>" unfolding sem_lit by auto
  have e1: "pos u1 = pos ?T + int (length (s1 @ d1)) \<and> rest u1 = ?r1 \<and>
    caps u1 = (sign_caps s1 (1 + 1) (pos ?T) (caps ?T))
      [2 * 1 := pos ?T, 2 * 1 + 1 := pos ?T + int (length (s1 @ d1))]"
    by (rule temp_value_signedE[OF u1(1) _ assms(1-3) refl _ r'(1)]) simp_all
  with r' have p2: "pos u2 = ?n1 + 1" "rest u2 = s2 @ d2 @ ?r2" "caps u2 = ?c1"
    by (simp_all add: numeral_2_eq_2[symmetric])
  from u3(2) obtain c r where sp: "rest u3 = c # r" "\<not> isDigit c" "c \<noteq> CHR ''M''"
    "c \<noteq> CHR ''-''" "caps t' = caps u3" by (rule sem_spacesE)
  from assms(5,6) obtain e d2' where e: "d2 = e # d2'" "isDigit e" by (cases d2) auto
  from u3(1) have "sem (temp_value 3) u2 u3"
  proof (cases rule: sem_optE)
    case 1
    with sp(1) p2(2) e(1) have "c # r = s2 @ e # d2' @ ?r2" by simp
    with assms(4) sp(2-4) e(2) have False by auto
    then show ?thesis ..
  qed
  have e3: "pos u3 = pos u2 + int (length (s2 @ d2)) \<and> rest u3 = ?r2 \<and>
    caps u3 = (sign_caps s2 (3 + 1) (pos u2) (caps u2))
      [2 * 3 := pos u2, 2 * 3 + 1 := pos u2 + int (length (s2 @ d2))]"
    by (rule temp_value_signedE[OF \<open>sem (temp_value 3) u2 u3\<close> p2(2) assms(4-6) refl _ sp(1,2)])
      simp
  with sp(5) p2 have c: "caps t' = ?c3" by simp
  from within_pos[OF sem_within[OF t'(1) w]]
  have b: "0 \<le> ?y ! 1" "?y ! 1 \<le> int (length raw)" by (simp_all add: c sign_caps_def)
  have y: "?y ! 2 = 0" "?y ! 3 = int (length (s1 @ d1))"
    "?y ! 4 = (if s1 = [] then - 1 else 0)" "?y ! 5 = (if s1 = [] then - 1 else 1)"
    "?y ! 6 = int (length (s1 @ d1)) + 1"
    "?y ! 7 = int (length (s1 @ d1)) + 1 + int (length (s2 @ d2))"
    "?y ! 8 = (if s2 = [] then - 1 else int (length (s1 @ d1)) + 1)"
    "?y ! 9 = (if s2 = [] then - 1 else int (length (s1 @ d1)) + 2)"
    unfolding c by (simp_all add: sign_caps_def)
  from F b y show ?thesis by (rule that)
qed


lemma Atoi_minus_digits:
  assumes "list_all isDigit ds" "ds \<noteq> []" "length ds \<le> 18"
  shows "Atoi (CHR ''-'' # ds) = Some (- decimal ds)"
proof -
  have "(10::int) ^ length ds \<le> 10 ^ 18"
    using assms(3) by (intro power_increasing) simp_all
  with decimal_bound[OF assms(1)] have "0 \<le> decimal ds" "decimal ds < 2 ^ 63"
    by simp_all
  then show ?thesis using assms(1,2) by (simp add: Atoi_def Let_def)
qed

lemma slice_middle:
  "slice (a @ u @ r) (int (length a)) (int (length a) + int (length u)) = Some u"
  by (simp add: slice_def nat_add_distrib)

text \<open>
  Lines 225-233 and 235-243 on a number with an optional sign: the text converted is the
  digits, behind a \<^verbatim>\<open>-\<close> when a sign was captured.
\<close>

lemma signed_value:
  assumes "sg \<in> {[], ''M'', ''-''}" "list_all isDigit ds" "ds \<noteq> []" "length ds \<le> 18"
    and "raw = a @ sg @ ds @ r"
    and "idx ! k = (if sg = [] then - 1 else int (length a))"
    and "idx ! (k + 1) = (if sg = [] then - 1 else int (length a) + 1)"
  shows "\<exists>str. signed raw idx k (sg @ ds) = Some str \<and>
    Atoi str = Some (if sg = [] then decimal ds else - decimal ds)"
proof (cases "sg = []")
  case True
  with assms(6) have "signed raw idx k (sg @ ds) = Some ds" by (simp add: signed_def)
  with True Atoi_digits[OF assms(2-4)] show ?thesis by simp
next
  case False
  from slice_middle[of a sg "ds @ r"] False assms(1,5)
  have "slice raw (int (length a)) (int (length a) + 1) = Some sg" by auto
  with False assms(1,6,7) have "signed raw idx k (sg @ ds) = Some (CHR ''-'' # ds)"
    by (auto simp: signed_def slice_from_def)
  with False Atoi_minus_digits[OF assms(2-4)] show ?thesis by simp
qed

lemma parse_temp_signed:
  assumes "s1 \<in> {[], ''M'', ''-''}" "list_all isDigit d1" "d1 \<noteq> []"
    "s2 \<in> {[], ''M'', ''-''}" "list_all isDigit d2" "d2 \<noteq> []"
    and raw: "raw = s1 @ d1 @ ''/'' @ s2 @ d2 @ '' '' @ sfx"
    and len: "length d1 \<le> 18" "length d2 \<le> 18"
  shows "\<exists>raw'. parse_temp (m, raw) =
    Inr (m\<lparr>Temp := (if s1 = [] then decimal d1 else - decimal d1),
           DewPt := (if s2 = [] then decimal d2 else - decimal d2)\<rparr>, raw')"
proof -
  from assms(1-7) obtain y where y: "FindStringSubmatchIndex re_temp raw = Some y"
    "0 \<le> y ! 1" "y ! 1 \<le> int (length raw)"
    "y ! 2 = 0" "y ! 3 = int (length (s1 @ d1))"
    "y ! 4 = (if s1 = [] then - 1 else 0)" "y ! 5 = (if s1 = [] then - 1 else 1)"
    "y ! 6 = int (length (s1 @ d1)) + 1"
    "y ! 7 = int (length (s1 @ d1)) + 1 + int (length (s2 @ d2))"
    "y ! 8 = (if s2 = [] then - 1 else int (length (s1 @ d1)) + 1)"
    "y ! 9 = (if s2 = [] then - 1 else int (length (s1 @ d1)) + 2)"
    by (rule Find_temp_signed)
  let ?a = "s1 @ d1 @ ''/''"
  have r1: "raw = [] @ s1 @ d1 @ (''/'' @ s2 @ d2 @ '' '' @ sfx)" by (simp add: raw)
  have r2: "raw = ?a @ s2 @ d2 @ ('' '' @ sfx)" by (simp add: raw)
  have "slice raw 0 (int (length (s1 @ d1))) = Some (s1 @ d1)"
    using slice_prefix[of "s1 @ d1" "''/'' @ s2 @ d2 @ '' '' @ sfx"] by (simp add: raw)
  with y(4,5) have t1: "slice raw (y ! 2) (y ! 3) = Some (s1 @ d1)" by simp
  from y(6,7) have "\<exists>str. signed raw y 4 (s1 @ d1) = Some str \<and>
      Atoi str = Some (if s1 = [] then decimal d1 else - decimal d1)"
    by (intro signed_value[OF assms(1-3) len(1) r1]) simp_all
  then obtain str1 where t2: "signed raw y 4 (s1 @ d1) = Some str1"
    "Atoi str1 = Some (if s1 = [] then decimal d1 else - decimal d1)" by blast
  have "slice raw (int (length ?a)) (int (length ?a) + int (length (s2 @ d2))) = Some (s2 @ d2)"
    using slice_middle[of ?a "s2 @ d2" "'' '' @ sfx"] by (simp add: raw)
  with y(8,9) have d1: "slice raw (y ! 6) (y ! 7) = Some (s2 @ d2)" by (simp add: ac_simps)
  from y(10,11) have "\<exists>str. signed raw y 8 (s2 @ d2) = Some str \<and>
      Atoi str = Some (if s2 = [] then decimal d2 else - decimal d2)"
    by (intro signed_value[OF assms(4-6) len(2) r2]) simp_all
  then obtain str2 where d2: "signed raw y 8 (s2 @ d2) = Some str2"
    "Atoi str2 = Some (if s2 = [] then decimal d2 else - decimal d2)" by blast
  from y(2,3) obtain raw' where "slice_from raw (y ! 1) = Some raw'"
    by (auto simp: slice_from_def)
  with y(1) t1 t2 d1 d2 have "parse_temp (m, raw) =
    Inr (m\<lparr>Temp := (if s1 = [] then decimal d1 else - decimal d1),
           DewPt := (if s2 = [] then decimal d2 else - decimal d2)\<rparr>, raw')"
    by (simp add: parse_temp_def advance_def)
  then show ?thesis by blast
qed

subsection \<open>The order of the matches of a scan\<close>

declare allMatches.simps [simp del]




subsection \<open>What a call writes, whatever record it is given\<close>

text \<open>
  \<^verbatim>\<open>Parse\<close> reads the record it is given only to carry over the fields it does not
  assign and to append to the two lists. What a call does to the record is therefore a
  list of writes that depends on the two texts alone: for each scalar field either nothing
  or the value assigned, for each list the entries appended.
\<close>

record writes =
  wStation :: "string option"
  wTime :: "int option"
  wMod :: "string option"
  wWind :: "Wind option"
  wVisibility :: "int option"
  wWeather :: "Weather list"
  wSky :: "Sky list"
  wTemp :: "int option"
  wDewPt :: "int option"
  wPressure :: "int option"

definition nowrite :: writes where
  "nowrite = \<lparr>wStation = None, wTime = None, wMod = None, wWind = None, wVisibility = None,
     wWeather = [], wSky = [], wTemp = None, wDewPt = None, wPressure = None\<rparr>"

definition assigned :: "'a option \<Rightarrow> 'a \<Rightarrow> 'a" where
  "assigned w old = (case w of None \<Rightarrow> old | Some v \<Rightarrow> v)"

definition written :: "writes \<Rightarrow> Metar \<Rightarrow> Metar" where
  "written d n =
     \<lparr>Station = assigned (wStation d) (Station n), Time = assigned (wTime d) (Time n),
      Mod = assigned (wMod d) (Mod n), Wind = assigned (wWind d) (Wind n),
      Visibility = assigned (wVisibility d) (Visibility n),
      Weather = Weather n @ wWeather d, Sky = Sky n @ wSky d,
      Temp = assigned (wTemp d) (Temp n), DewPt = assigned (wDewPt d) (DewPt n),
      Pressure = assigned (wPressure d) (Pressure n)\<rparr>"

definition later :: "'a option \<Rightarrow> 'a option \<Rightarrow> 'a option" where
  "later a b = (case b of None \<Rightarrow> a | Some v \<Rightarrow> Some v)"

definition andalso :: "writes \<Rightarrow> writes \<Rightarrow> writes" where
  "andalso d1 d2 =
     \<lparr>wStation = later (wStation d1) (wStation d2), wTime = later (wTime d1) (wTime d2),
      wMod = later (wMod d1) (wMod d2), wWind = later (wWind d1) (wWind d2),
      wVisibility = later (wVisibility d1) (wVisibility d2),
      wWeather = wWeather d1 @ wWeather d2, wSky = wSky d1 @ wSky d2,
      wTemp = later (wTemp d1) (wTemp d2), wDewPt = later (wDewPt d1) (wDewPt d2),
      wPressure = later (wPressure d1) (wPressure d2)\<rparr>"

text \<open>
  \<open>frames P x\<close>: the stage \<open>x\<close>, as a function of the record it is given, ends the same way
  for every record and leaves the record with the writes \<open>d\<close> applied, where \<open>d\<close> is one of
  the writes \<open>P\<close> admits.
\<close>

definition frames :: "(writes \<Rightarrow> bool) \<Rightarrow> (Metar \<Rightarrow> (Metar \<times> outcome) + cursor) \<Rightarrow> bool" where
  "frames P x =
     (\<exists>d. P d \<and>
        ((\<exists>e. \<forall>n. x n = Inl (written d n, e)) \<or> (\<exists>r. \<forall>n. x n = Inr (written d n, r))))"

lemma assigned_later: "assigned (later a b) x = assigned b (assigned a x)"
  by (cases b) (simp_all add: assigned_def later_def)

lemma written_andalso: "written d2 (written d1 n) = written (andalso d1 d2) n"
  by (simp add: written_def andalso_def assigned_later)

lemma written_nowrite: "written nowrite n = n"
  by (simp add: written_def nowrite_def assigned_def)

lemma written_fields:
  "written (nowrite\<lparr>wStation := Some st\<rparr>) n = n\<lparr>Station := st\<rparr>"
  "written (nowrite\<lparr>wTime := Some t\<rparr>) n = n\<lparr>Time := t\<rparr>"
  "written (nowrite\<lparr>wMod := Some md\<rparr>) n = n\<lparr>Mod := md\<rparr>"
  "written (nowrite\<lparr>wWind := Some w\<rparr>) n = n\<lparr>Wind := w\<rparr>"
  "written (nowrite\<lparr>wVisibility := Some v\<rparr>) n = n\<lparr>Visibility := v\<rparr>"
  "written (nowrite\<lparr>wWeather := ws\<rparr>) n = n\<lparr>Weather := Weather n @ ws\<rparr>"
  "written (nowrite\<lparr>wSky := ss\<rparr>) n = n\<lparr>Sky := Sky n @ ss\<rparr>"
  "written (nowrite\<lparr>wTemp := Some tp\<rparr>) n = n\<lparr>Temp := tp\<rparr>"
  "written (nowrite\<lparr>wTemp := Some tp, wDewPt := Some dp\<rparr>) n = n\<lparr>Temp := tp, DewPt := dp\<rparr>"
  "written (nowrite\<lparr>wPressure := Some p\<rparr>) n = n\<lparr>Pressure := p\<rparr>"
  by (simp_all add: written_def nowrite_def assigned_def)

lemma frames_Inl: "P d \<Longrightarrow> (\<And>n. g n = written d n) \<Longrightarrow> frames P (\<lambda>n. Inl (g n, e))"
  unfolding frames_def by auto

lemma frames_Inr: "P d \<Longrightarrow> (\<And>n. g n = written d n) \<Longrightarrow> frames P (\<lambda>n. Inr (g n, r))"
  unfolding frames_def by auto

lemma frames_advance:
  "P d \<Longrightarrow> (\<And>n. g n = written d n) \<Longrightarrow> frames P (\<lambda>n. advance (g n) raw idx)"
  unfolding advance_def by (cases "slice_from raw (idx ! 1)") (auto intro: frames_Inl frames_Inr)

lemma frames_option:
  "(x = None \<Longrightarrow> frames P a) \<Longrightarrow> (\<And>v. x = Some v \<Longrightarrow> frames P (\<lambda>n. b n v)) \<Longrightarrow>
     frames P (\<lambda>n. case x of None \<Rightarrow> a n | Some v \<Rightarrow> b n v)"
  by (cases x) simp_all

lemma frames_sum:
  "(\<And>v. x = Inl v \<Longrightarrow> frames P (\<lambda>n. a n v)) \<Longrightarrow> (\<And>v. x = Inr v \<Longrightarrow> frames P (\<lambda>n. b n v)) \<Longrightarrow>
     frames P (\<lambda>n. case x of Inl v \<Rightarrow> a n v | Inr v \<Rightarrow> b n v)"
  by (cases x) simp_all

lemma frames_if:
  "(c \<Longrightarrow> frames P a) \<Longrightarrow> (\<not> c \<Longrightarrow> frames P b) \<Longrightarrow> frames P (\<lambda>n. if c then a n else b n)"
  by (cases c) simp_all

lemma frames_weaken: "frames P x \<Longrightarrow> (\<And>d. P d \<Longrightarrow> Q d) \<Longrightarrow> frames Q x"
  unfolding frames_def by blast

lemma frames_andThen:
  assumes "frames P x" and "\<And>r. frames Q (\<lambda>n. f (n, r))"
    and PR: "\<And>d. P d \<Longrightarrow> R d" and PQR: "\<And>d1 d2. P d1 \<Longrightarrow> Q d2 \<Longrightarrow> R (andalso d1 d2)"
  shows "frames R (\<lambda>n. andThen (x n) f)"
proof -
  from assms(1) obtain d where d: "P d"
    "(\<exists>e. \<forall>n. x n = Inl (written d n, e)) \<or> (\<exists>r. \<forall>n. x n = Inr (written d n, r))"
    unfolding frames_def by blast
  from d(2) show ?thesis
  proof
    assume "\<exists>e. \<forall>n. x n = Inl (written d n, e)"
    then obtain e where "\<forall>n. x n = Inl (written d n, e)" by blast
    with PR[OF d(1)] show ?thesis unfolding frames_def andThen_def
      by (intro exI[of _ d]) simp
  next
    assume "\<exists>r. \<forall>n. x n = Inr (written d n, r)"
    then obtain r where r: "\<forall>n. x n = Inr (written d n, r)" by blast
    from assms(2)[of r] obtain d2 where d2: "Q d2"
      "(\<exists>e. \<forall>n. f (n, r) = Inl (written d2 n, e)) \<or> (\<exists>r'. \<forall>n. f (n, r) = Inr (written d2 n, r'))"
      unfolding frames_def by blast
    from d2(2) r PQR[OF d(1) d2(1)] show ?thesis unfolding frames_def andThen_def
      by (intro exI[of _ "andalso d d2"]) (auto simp: written_andalso)
  qed
qed

subsection \<open>The writes of each step\<close>

lemma frames_Inl0: "P nowrite \<Longrightarrow> frames P (\<lambda>n. Inl (n, e))"
  by (rule frames_Inl[where d = nowrite]) (simp_all add: written_nowrite)

lemma frames_Inr0: "P nowrite \<Longrightarrow> frames P (\<lambda>n. Inr (n, r))"
  by (rule frames_Inr[where d = nowrite]) (simp_all add: written_nowrite)

lemma frames_advance0: "P nowrite \<Longrightarrow> frames P (\<lambda>n. advance n raw idx)"
  by (rule frames_advance[where d = nowrite]) (simp_all add: written_nowrite)

lemma frames_advance_Station:
  "P (nowrite\<lparr>wStation := Some v\<rparr>) \<Longrightarrow> frames P (\<lambda>n. advance (n\<lparr>Station := v\<rparr>) raw idx)"
  by (rule frames_advance[where d = "nowrite\<lparr>wStation := Some v\<rparr>"]) (simp_all add: written_fields)

lemma frames_advance_Time:
  "P (nowrite\<lparr>wTime := Some v\<rparr>) \<Longrightarrow> frames P (\<lambda>n. advance (n\<lparr>Time := v\<rparr>) raw idx)"
  by (rule frames_advance[where d = "nowrite\<lparr>wTime := Some v\<rparr>"]) (simp_all add: written_fields)

lemma frames_advance_Mod:
  "P (nowrite\<lparr>wMod := Some v\<rparr>) \<Longrightarrow> frames P (\<lambda>n. advance (n\<lparr>Mod := v\<rparr>) raw idx)"
  by (rule frames_advance[where d = "nowrite\<lparr>wMod := Some v\<rparr>"]) (simp_all add: written_fields)

lemma frames_advance_Wind:
  "P (nowrite\<lparr>wWind := Some v\<rparr>) \<Longrightarrow> frames P (\<lambda>n. advance (n\<lparr>Wind := v\<rparr>) raw idx)"
  by (rule frames_advance[where d = "nowrite\<lparr>wWind := Some v\<rparr>"]) (simp_all add: written_fields)

lemma frames_advance_Visibility:
  "P (nowrite\<lparr>wVisibility := Some v\<rparr>) \<Longrightarrow>
     frames P (\<lambda>n. advance (n\<lparr>Visibility := v\<rparr>) raw idx)"
  by (rule frames_advance[where d = "nowrite\<lparr>wVisibility := Some v\<rparr>"])
    (simp_all add: written_fields)

lemma frames_advance_Temp:
  "P (nowrite\<lparr>wTemp := Some t, wDewPt := Some d\<rparr>) \<Longrightarrow>
     frames P (\<lambda>n. advance (n\<lparr>Temp := t, DewPt := d\<rparr>) raw idx)"
  by (rule frames_advance[where d = "nowrite\<lparr>wTemp := Some t, wDewPt := Some d\<rparr>"])
    (simp_all add: written_fields)

lemma frames_Inl_Temp:
  "P (nowrite\<lparr>wTemp := Some t\<rparr>) \<Longrightarrow> frames P (\<lambda>n. Inl (n\<lparr>Temp := t\<rparr>, e))"
  by (rule frames_Inl[where d = "nowrite\<lparr>wTemp := Some t\<rparr>"]) (simp_all add: written_fields)

lemma frames_Inr_Pressure:
  "P (nowrite\<lparr>wPressure := Some v\<rparr>) \<Longrightarrow> frames P (\<lambda>n. Inr (n\<lparr>Pressure := v\<rparr>, r))"
  by (rule frames_Inr[where d = "nowrite\<lparr>wPressure := Some v\<rparr>"]) (simp_all add: written_fields)

lemmas frames_intros = frames_option frames_sum frames_if frames_Inl0 frames_Inr0 frames_advance0
  frames_advance_Station frames_advance_Time frames_advance_Mod frames_advance_Wind
  frames_advance_Visibility frames_advance_Temp frames_Inl_Temp frames_Inr_Pressure

text \<open>The writes a step may make: none but to the fields named.\<close>

definition only_Station :: "writes \<Rightarrow> bool" where
  "only_Station d = (d\<lparr>wStation := None\<rparr> = nowrite)"

definition only_Time :: "writes \<Rightarrow> bool" where
  "only_Time d = (d\<lparr>wTime := None\<rparr> = nowrite)"

definition only_Mod :: "writes \<Rightarrow> bool" where
  "only_Mod d = (d\<lparr>wMod := None\<rparr> = nowrite)"

definition only_Wind :: "writes \<Rightarrow> bool" where
  "only_Wind d = (d\<lparr>wWind := None\<rparr> = nowrite)"

definition only_Visibility :: "writes \<Rightarrow> bool" where
  "only_Visibility d = (d\<lparr>wVisibility := None\<rparr> = nowrite)"

definition only_Weather :: "writes \<Rightarrow> bool" where
  "only_Weather d = (d\<lparr>wWeather := []\<rparr> = nowrite)"

definition only_Sky :: "writes \<Rightarrow> bool" where
  "only_Sky d = (d\<lparr>wSky := []\<rparr> = nowrite)"

definition only_Temp :: "writes \<Rightarrow> bool" where
  "only_Temp d = (d\<lparr>wTemp := None, wDewPt := None\<rparr> = nowrite)"

definition only_Pressure :: "writes \<Rightarrow> bool" where
  "only_Pressure d = (d\<lparr>wPressure := None\<rparr> = nowrite)"

lemmas only_defs = only_Station_def only_Time_def only_Mod_def only_Wind_def only_Visibility_def
  only_Weather_def only_Sky_def only_Temp_def only_Pressure_def

lemma parse_type_frames: "frames (\<lambda>d. d = nowrite) (\<lambda>n. parse_type (n, raw))"
  unfolding parse_type_def prod.case by (intro frames_intros) simp_all

lemma parse_station_frames: "frames only_Station (\<lambda>n. parse_station (n, raw))"
  unfolding parse_station_def prod.case
  by (intro frames_intros) (simp_all add: only_defs nowrite_def)

lemma parse_time_frames: "frames only_Time (\<lambda>n. parse_time date (n, raw))"
  unfolding parse_time_def prod.case
  by (intro frames_intros) (simp_all add: only_defs nowrite_def)

lemma parse_modifier_frames: "frames only_Mod (\<lambda>n. parse_modifier (n, raw))"
  unfolding parse_modifier_def prod.case
  by (intro frames_intros) (simp_all add: only_defs nowrite_def)

lemma parse_wind_frames: "frames only_Wind (\<lambda>n. parse_wind (n, raw))"
  unfolding parse_wind_def prod.case
  by (intro frames_intros) (simp_all add: only_defs nowrite_def)

lemma parse_visibility_frames: "frames only_Visibility (\<lambda>n. parse_visibility (n, raw))"
  unfolding parse_visibility_def prod.case
  by (intro frames_intros) (simp_all add: only_defs nowrite_def)

lemma parse_temp_frames: "frames only_Temp (\<lambda>n. parse_temp (n, raw))"
  unfolding parse_temp_def prod.case
  by (intro frames_intros) (simp_all add: only_defs nowrite_def)

lemma parse_press_frames: "frames only_Pressure (\<lambda>n. parse_press (n, raw))"
  unfolding parse_press_def prod.case
  by (intro frames_intros) (simp_all add: only_defs nowrite_def)

lemma weather_loop_frames:
  "\<exists>ws. (\<exists>e. \<forall>n. weather_loop raw idxs n = Inl (n\<lparr>Weather := Weather n @ ws\<rparr>, e)) \<or>
     (\<forall>n. weather_loop raw idxs n = Inr (n\<lparr>Weather := Weather n @ ws\<rparr>))"
proof (induction idxs)
  case Nil
  show ?case by (intro exI[of _ "[]"]) simp
next
  case (Cons idx idxs)
  show ?case
  proof (cases "weather_of raw idx")
    case None
    then show ?thesis by (intro exI[of _ "[]"]) simp
  next
    case (Some w)
    from Cons.IH obtain ws where
      "(\<exists>e. \<forall>n. weather_loop raw idxs n = Inl (n\<lparr>Weather := Weather n @ ws\<rparr>, e)) \<or>
       (\<forall>n. weather_loop raw idxs n = Inr (n\<lparr>Weather := Weather n @ ws\<rparr>))" by blast
    with Some show ?thesis by (intro exI[of _ "w # ws"]) auto
  qed
qed

lemma parse_weather_frames: "frames only_Weather (\<lambda>n. parse_weather (n, raw))"
proof (cases "FindAllStringSubmatchIndex re_weather raw")
  case Nil
  then show ?thesis unfolding parse_weather_def prod.case
    by simp (rule frames_Inr0, simp add: only_defs nowrite_def)
next
  case (Cons idx idxs)
  from weather_loop_frames[of raw "idx # idxs"] obtain ws where
    ws: "(\<exists>e. \<forall>n. weather_loop raw (idx # idxs) n = Inl (n\<lparr>Weather := Weather n @ ws\<rparr>, e)) \<or>
       (\<forall>n. weather_loop raw (idx # idxs) n = Inr (n\<lparr>Weather := Weather n @ ws\<rparr>))" by blast
  have P: "only_Weather (nowrite\<lparr>wWeather := ws\<rparr>)" by (simp add: only_defs nowrite_def)
  from ws show ?thesis
  proof
    assume "\<exists>e. \<forall>n. weather_loop raw (idx # idxs) n = Inl (n\<lparr>Weather := Weather n @ ws\<rparr>, e)"
    then obtain e where
      "\<forall>n. weather_loop raw (idx # idxs) n = Inl (n\<lparr>Weather := Weather n @ ws\<rparr>, e)" by blast
    with Cons have "(\<lambda>n. parse_weather (n, raw)) = (\<lambda>n. Inl (n\<lparr>Weather := Weather n @ ws\<rparr>, e))"
      by (simp add: parse_weather_def)
    then show ?thesis using frames_Inl[where P = only_Weather and d = "nowrite\<lparr>wWeather := ws\<rparr>" and g = "\<lambda>n. n\<lparr>Weather := Weather n @ ws\<rparr>" and e = e, OF P]
      by (simp add: written_fields)
  next
    assume "\<forall>n. weather_loop raw (idx # idxs) n = Inr (n\<lparr>Weather := Weather n @ ws\<rparr>)"
    with Cons have "(\<lambda>n. parse_weather (n, raw)) =
        (\<lambda>n. advance (n\<lparr>Weather := Weather n @ ws\<rparr>) raw (last (idx # idxs)))"
      by (simp add: parse_weather_def)
    then show ?thesis
      using frames_advance[where P = only_Weather and d = "nowrite\<lparr>wWeather := ws\<rparr>" and g = "\<lambda>n. n\<lparr>Weather := Weather n @ ws\<rparr>" and raw = raw
          and idx = "last (idx # idxs)", OF P]
      by (simp add: written_fields)
  qed
qed

lemma sky_loop_frames:
  "\<exists>ss. (\<exists>e. \<forall>n. sky_loop raw idxs n = Inl (n\<lparr>Sky := Sky n @ ss\<rparr>, e)) \<or>
     (\<forall>n. sky_loop raw idxs n = Inr (n\<lparr>Sky := Sky n @ ss\<rparr>))"
proof (induction idxs)
  case Nil
  show ?case by (intro exI[of _ "[]"]) simp
next
  case (Cons idx idxs)
  show ?case
  proof (cases "sky_of raw idx")
    case (Inl e)
    then show ?thesis by (intro exI[of _ "[]"]) simp
  next
    case (Inr w)
    from Cons.IH obtain ss where
      "(\<exists>e. \<forall>n. sky_loop raw idxs n = Inl (n\<lparr>Sky := Sky n @ ss\<rparr>, e)) \<or>
       (\<forall>n. sky_loop raw idxs n = Inr (n\<lparr>Sky := Sky n @ ss\<rparr>))" by blast
    with Inr show ?thesis by (intro exI[of _ "w # ss"]) auto
  qed
qed

lemma parse_sky_frames: "frames only_Sky (\<lambda>n. parse_sky (n, raw))"
proof (cases "FindAllStringSubmatchIndex re_sky raw")
  case Nil
  then show ?thesis unfolding parse_sky_def prod.case
    by simp (rule frames_Inl0, simp add: only_defs nowrite_def)
next
  case (Cons idx idxs)
  from sky_loop_frames[of raw "idx # idxs"] obtain ss where
    ss: "(\<exists>e. \<forall>n. sky_loop raw (idx # idxs) n = Inl (n\<lparr>Sky := Sky n @ ss\<rparr>, e)) \<or>
       (\<forall>n. sky_loop raw (idx # idxs) n = Inr (n\<lparr>Sky := Sky n @ ss\<rparr>))" by blast
  have P: "only_Sky (nowrite\<lparr>wSky := ss\<rparr>)" by (simp add: only_defs nowrite_def)
  from ss show ?thesis
  proof
    assume "\<exists>e. \<forall>n. sky_loop raw (idx # idxs) n = Inl (n\<lparr>Sky := Sky n @ ss\<rparr>, e)"
    then obtain e where
      "\<forall>n. sky_loop raw (idx # idxs) n = Inl (n\<lparr>Sky := Sky n @ ss\<rparr>, e)" by blast
    with Cons have "(\<lambda>n. parse_sky (n, raw)) = (\<lambda>n. Inl (n\<lparr>Sky := Sky n @ ss\<rparr>, e))"
      by (simp add: parse_sky_def)
    then show ?thesis using frames_Inl[where P = only_Sky and d = "nowrite\<lparr>wSky := ss\<rparr>" and g = "\<lambda>n. n\<lparr>Sky := Sky n @ ss\<rparr>" and e = e, OF P]
      by (simp add: written_fields)
  next
    assume "\<forall>n. sky_loop raw (idx # idxs) n = Inr (n\<lparr>Sky := Sky n @ ss\<rparr>)"
    with Cons have "(\<lambda>n. parse_sky (n, raw)) =
        (\<lambda>n. advance (n\<lparr>Sky := Sky n @ ss\<rparr>) raw (last (idx # idxs)))"
      by (simp add: parse_sky_def)
    then show ?thesis
      using frames_advance[where P = only_Sky and d = "nowrite\<lparr>wSky := ss\<rparr>" and g = "\<lambda>n. n\<lparr>Sky := Sky n @ ss\<rparr>" and raw = raw
          and idx = "last (idx # idxs)", OF P]
      by (simp add: written_fields)
  qed
qed


subsection \<open>The writes of a whole call\<close>

lemma frames_andThen_any:
  assumes "frames P x" and "\<And>r. frames Q (\<lambda>n. f (n, r))"
  shows "frames (\<lambda>d. True) (\<lambda>n. andThen (x n) f)"
  using assms by (rule frames_andThen) simp_all

lemma through_station_frames: "frames (\<lambda>d. True) (\<lambda>n. through_station n raw)"
  unfolding through_station_def
  by (rule frames_andThen_any[OF parse_type_frames parse_station_frames])

lemma through_temp_frames: "frames (\<lambda>d. True) (\<lambda>n. through_temp n raw date)"
  unfolding through_temp_def through_sky_def through_weather_def through_visibility_def
    through_wind_def through_modifier_def through_time_def
  by (intro frames_andThen_any[where P = "\<lambda>d. True"] through_station_frames)
    (rule parse_time_frames parse_modifier_frames parse_wind_frames parse_visibility_frames
      parse_weather_frames parse_sky_frames parse_temp_frames)+

text \<open>
  The outcome of a call does not depend on the record it is given, and the record it
  leaves is the one it was given with writes applied that do not depend on it either.
\<close>

lemma Parse_frames: "\<exists>d e. \<forall>n. Parse n raw date = (written d n, e)"
proof -
  have "frames (\<lambda>d. True) (\<lambda>n. andThen (through_temp n raw date) parse_press)"
    by (rule frames_andThen_any[OF through_temp_frames parse_press_frames])
  then obtain d where
    "(\<exists>e. \<forall>n. andThen (through_temp n raw date) parse_press = Inl (written d n, e)) \<or>
     (\<exists>r. \<forall>n. andThen (through_temp n raw date) parse_press = Inr (written d n, r))"
    unfolding frames_def by blast
  then show ?thesis
  proof
    assume "\<exists>e. \<forall>n. andThen (through_temp n raw date) parse_press = Inl (written d n, e)"
    then obtain e where "\<forall>n. andThen (through_temp n raw date) parse_press = Inl (written d n, e)"
      by blast
    then show ?thesis by (intro exI[of _ d] exI[of _ e]) (simp add: Parse_def)
  next
    assume "\<exists>r. \<forall>n. andThen (through_temp n raw date) parse_press = Inr (written d n, r)"
    then obtain r where "\<forall>n. andThen (through_temp n raw date) parse_press = Inr (written d n, r)"
      by blast
    then show ?thesis by (intro exI[of _ d] exI[of _ nil]) (simp add: Parse_def)
  qed
qed

subsection \<open>What the later steps leave alone\<close>

definition record_of :: "(Metar \<times> outcome) + cursor \<Rightarrow> Metar" where
  "record_of x = (case x of Inl (m', e) \<Rightarrow> m' | Inr (m', raw') \<Rightarrow> m')"

lemma record_of_simps [simp]: "record_of (Inl (m, e)) = m" "record_of (Inr (m, r)) = m"
  by (simp_all add: record_of_def)

lemma frames_keeps:
  assumes "frames P (\<lambda>n. f (n, r))" and "\<And>d n. P d \<Longrightarrow> F (written d n) = F n"
  shows "F (record_of (f (m, r))) = F m"
proof -
  from assms(1) obtain d where d: "P d"
    "(\<exists>e. \<forall>n. f (n, r) = Inl (written d n, e)) \<or> (\<exists>r'. \<forall>n. f (n, r) = Inr (written d n, r'))"
    unfolding frames_def by blast
  from d(2) have "record_of (f (m, r)) = written d m" by auto
  with assms(2)[OF d(1)] show ?thesis by simp
qed

lemma held_andThen:
  "F (record_of x) = v \<Longrightarrow> (\<And>m r. F (record_of (f (m, r))) = F m) \<Longrightarrow>
     F (record_of (andThen x f)) = v"
  by (cases x) (auto simp: andThen_def)

lemma Parse_record_of:
  "fst (Parse m raw date) = record_of (andThen (through_temp m raw date) parse_press)"
  by (simp add: Parse_def record_of_def split: sum.splits prod.splits)

lemma written_sel:
  "Station (written d n) = assigned (wStation d) (Station n)"
  "Time (written d n) = assigned (wTime d) (Time n)"
  "Mod (written d n) = assigned (wMod d) (Mod n)"
  "Wind (written d n) = assigned (wWind d) (Wind n)"
  "Visibility (written d n) = assigned (wVisibility d) (Visibility n)"
  "Weather (written d n) = Weather n @ wWeather d"
  "Sky (written d n) = Sky n @ wSky d"
  "Temp (written d n) = assigned (wTemp d) (Temp n)"
  "DewPt (written d n) = assigned (wDewPt d) (DewPt n)"
  "Pressure (written d n) = assigned (wPressure d) (Pressure n)"
  by (simp_all add: written_def)

lemma only_Time_sel:
  assumes "only_Time d"
  shows "wStation d = None" "wMod d = None" "wWind d = None" "wVisibility d = None" "wWeather d = []" "wSky d = []" "wTemp d = None" "wDewPt d = None" "wPressure d = None"
  using assms by (cases d; simp add: only_defs nowrite_def)+

lemma parse_time_keeps:
  "Station (record_of (parse_time date (m, r))) = Station m"
  "Mod (record_of (parse_time date (m, r))) = Mod m"
  "Wind (record_of (parse_time date (m, r))) = Wind m"
  "Visibility (record_of (parse_time date (m, r))) = Visibility m"
  "Weather (record_of (parse_time date (m, r))) = Weather m"
  "Sky (record_of (parse_time date (m, r))) = Sky m"
  "Temp (record_of (parse_time date (m, r))) = Temp m"
  "DewPt (record_of (parse_time date (m, r))) = DewPt m"
  "Pressure (record_of (parse_time date (m, r))) = Pressure m"
  by (rule frames_keeps[OF parse_time_frames], simp add: written_sel only_Time_sel assigned_def)+

lemma only_Mod_sel:
  assumes "only_Mod d"
  shows "wStation d = None" "wTime d = None" "wWind d = None" "wVisibility d = None" "wWeather d = []" "wSky d = []" "wTemp d = None" "wDewPt d = None" "wPressure d = None"
  using assms by (cases d; simp add: only_defs nowrite_def)+

lemma parse_modifier_keeps:
  "Station (record_of (parse_modifier (m, r))) = Station m"
  "Time (record_of (parse_modifier (m, r))) = Time m"
  "Wind (record_of (parse_modifier (m, r))) = Wind m"
  "Visibility (record_of (parse_modifier (m, r))) = Visibility m"
  "Weather (record_of (parse_modifier (m, r))) = Weather m"
  "Sky (record_of (parse_modifier (m, r))) = Sky m"
  "Temp (record_of (parse_modifier (m, r))) = Temp m"
  "DewPt (record_of (parse_modifier (m, r))) = DewPt m"
  "Pressure (record_of (parse_modifier (m, r))) = Pressure m"
  by (rule frames_keeps[OF parse_modifier_frames], simp add: written_sel only_Mod_sel assigned_def)+

lemma only_Wind_sel:
  assumes "only_Wind d"
  shows "wStation d = None" "wTime d = None" "wMod d = None" "wVisibility d = None" "wWeather d = []" "wSky d = []" "wTemp d = None" "wDewPt d = None" "wPressure d = None"
  using assms by (cases d; simp add: only_defs nowrite_def)+

lemma parse_wind_keeps:
  "Station (record_of (parse_wind (m, r))) = Station m"
  "Time (record_of (parse_wind (m, r))) = Time m"
  "Mod (record_of (parse_wind (m, r))) = Mod m"
  "Visibility (record_of (parse_wind (m, r))) = Visibility m"
  "Weather (record_of (parse_wind (m, r))) = Weather m"
  "Sky (record_of (parse_wind (m, r))) = Sky m"
  "Temp (record_of (parse_wind (m, r))) = Temp m"
  "DewPt (record_of (parse_wind (m, r))) = DewPt m"
  "Pressure (record_of (parse_wind (m, r))) = Pressure m"
  by (rule frames_keeps[OF parse_wind_frames], simp add: written_sel only_Wind_sel assigned_def)+

lemma only_Visibility_sel:
  assumes "only_Visibility d"
  shows "wStation d = None" "wTime d = None" "wMod d = None" "wWind d = None" "wWeather d = []" "wSky d = []" "wTemp d = None" "wDewPt d = None" "wPressure d = None"
  using assms by (cases d; simp add: only_defs nowrite_def)+

lemma parse_visibility_keeps:
  "Station (record_of (parse_visibility (m, r))) = Station m"
  "Time (record_of (parse_visibility (m, r))) = Time m"
  "Mod (record_of (parse_visibility (m, r))) = Mod m"
  "Wind (record_of (parse_visibility (m, r))) = Wind m"
  "Weather (record_of (parse_visibility (m, r))) = Weather m"
  "Sky (record_of (parse_visibility (m, r))) = Sky m"
  "Temp (record_of (parse_visibility (m, r))) = Temp m"
  "DewPt (record_of (parse_visibility (m, r))) = DewPt m"
  "Pressure (record_of (parse_visibility (m, r))) = Pressure m"
  by (rule frames_keeps[OF parse_visibility_frames], simp add: written_sel only_Visibility_sel assigned_def)+

lemma only_Weather_sel:
  assumes "only_Weather d"
  shows "wStation d = None" "wTime d = None" "wMod d = None" "wWind d = None" "wVisibility d = None" "wSky d = []" "wTemp d = None" "wDewPt d = None" "wPressure d = None"
  using assms by (cases d; simp add: only_defs nowrite_def)+

lemma parse_weather_keeps:
  "Station (record_of (parse_weather (m, r))) = Station m"
  "Time (record_of (parse_weather (m, r))) = Time m"
  "Mod (record_of (parse_weather (m, r))) = Mod m"
  "Wind (record_of (parse_weather (m, r))) = Wind m"
  "Visibility (record_of (parse_weather (m, r))) = Visibility m"
  "Sky (record_of (parse_weather (m, r))) = Sky m"
  "Temp (record_of (parse_weather (m, r))) = Temp m"
  "DewPt (record_of (parse_weather (m, r))) = DewPt m"
  "Pressure (record_of (parse_weather (m, r))) = Pressure m"
  by (rule frames_keeps[OF parse_weather_frames], simp add: written_sel only_Weather_sel assigned_def)+

lemma only_Sky_sel:
  assumes "only_Sky d"
  shows "wStation d = None" "wTime d = None" "wMod d = None" "wWind d = None" "wVisibility d = None" "wWeather d = []" "wTemp d = None" "wDewPt d = None" "wPressure d = None"
  using assms by (cases d; simp add: only_defs nowrite_def)+

lemma parse_sky_keeps:
  "Station (record_of (parse_sky (m, r))) = Station m"
  "Time (record_of (parse_sky (m, r))) = Time m"
  "Mod (record_of (parse_sky (m, r))) = Mod m"
  "Wind (record_of (parse_sky (m, r))) = Wind m"
  "Visibility (record_of (parse_sky (m, r))) = Visibility m"
  "Weather (record_of (parse_sky (m, r))) = Weather m"
  "Temp (record_of (parse_sky (m, r))) = Temp m"
  "DewPt (record_of (parse_sky (m, r))) = DewPt m"
  "Pressure (record_of (parse_sky (m, r))) = Pressure m"
  by (rule frames_keeps[OF parse_sky_frames], simp add: written_sel only_Sky_sel assigned_def)+

lemma only_Temp_sel:
  assumes "only_Temp d"
  shows "wStation d = None" "wTime d = None" "wMod d = None" "wWind d = None" "wVisibility d = None" "wWeather d = []" "wSky d = []" "wPressure d = None"
  using assms by (cases d; simp add: only_defs nowrite_def)+

lemma parse_temp_keeps:
  "Station (record_of (parse_temp (m, r))) = Station m"
  "Time (record_of (parse_temp (m, r))) = Time m"
  "Mod (record_of (parse_temp (m, r))) = Mod m"
  "Wind (record_of (parse_temp (m, r))) = Wind m"
  "Visibility (record_of (parse_temp (m, r))) = Visibility m"
  "Weather (record_of (parse_temp (m, r))) = Weather m"
  "Sky (record_of (parse_temp (m, r))) = Sky m"
  "Pressure (record_of (parse_temp (m, r))) = Pressure m"
  by (rule frames_keeps[OF parse_temp_frames], simp add: written_sel only_Temp_sel assigned_def)+

lemma only_Pressure_sel:
  assumes "only_Pressure d"
  shows "wStation d = None" "wTime d = None" "wMod d = None" "wWind d = None" "wVisibility d = None" "wWeather d = []" "wSky d = []" "wTemp d = None" "wDewPt d = None"
  using assms by (cases d; simp add: only_defs nowrite_def)+

lemma parse_press_keeps:
  "Station (record_of (parse_press (m, r))) = Station m"
  "Time (record_of (parse_press (m, r))) = Time m"
  "Mod (record_of (parse_press (m, r))) = Mod m"
  "Wind (record_of (parse_press (m, r))) = Wind m"
  "Visibility (record_of (parse_press (m, r))) = Visibility m"
  "Weather (record_of (parse_press (m, r))) = Weather m"
  "Sky (record_of (parse_press (m, r))) = Sky m"
  "Temp (record_of (parse_press (m, r))) = Temp m"
  "DewPt (record_of (parse_press (m, r))) = DewPt m"
  by (rule frames_keeps[OF parse_press_frames], simp add: written_sel only_Pressure_sel assigned_def)+


text \<open>
  A field written by a step that succeeded is not written again: whatever the later steps
  do, and however the call ends, the record holds the value of that step.
\<close>

lemma Parse_holds_station:
  assumes "through_station m raw = Inr (mk, rk)"
  shows "Station (fst (Parse m raw date)) = Station mk"
proof -
  from assms have "Station (record_of (through_station m raw)) = Station mk" by simp
  then show ?thesis unfolding Parse_record_of through_temp_def through_sky_def through_weather_def through_visibility_def through_wind_def through_modifier_def through_time_def
    by (intro held_andThen[where F = Station]) (simp_all add: parse_time_keeps parse_modifier_keeps parse_wind_keeps parse_visibility_keeps parse_weather_keeps parse_sky_keeps parse_temp_keeps parse_press_keeps)
qed

lemma Parse_holds_time:
  assumes "through_time m raw date = Inr (mk, rk)"
  shows "Time (fst (Parse m raw date)) = Time mk"
proof -
  from assms have "Time (record_of (through_time m raw date)) = Time mk" by simp
  then show ?thesis unfolding Parse_record_of through_temp_def through_sky_def through_weather_def through_visibility_def through_wind_def through_modifier_def
    by (intro held_andThen[where F = Time]) (simp_all add: parse_time_keeps parse_modifier_keeps parse_wind_keeps parse_visibility_keeps parse_weather_keeps parse_sky_keeps parse_temp_keeps parse_press_keeps)
qed

lemma Parse_holds_modifier:
  assumes "through_modifier m raw date = Inr (mk, rk)"
  shows "Mod (fst (Parse m raw date)) = Mod mk"
proof -
  from assms have "Mod (record_of (through_modifier m raw date)) = Mod mk" by simp
  then show ?thesis unfolding Parse_record_of through_temp_def through_sky_def through_weather_def through_visibility_def through_wind_def
    by (intro held_andThen[where F = Mod]) (simp_all add: parse_time_keeps parse_modifier_keeps parse_wind_keeps parse_visibility_keeps parse_weather_keeps parse_sky_keeps parse_temp_keeps parse_press_keeps)
qed

lemma Parse_holds_wind:
  assumes "through_wind m raw date = Inr (mk, rk)"
  shows "Wind (fst (Parse m raw date)) = Wind mk"
proof -
  from assms have "Wind (record_of (through_wind m raw date)) = Wind mk" by simp
  then show ?thesis unfolding Parse_record_of through_temp_def through_sky_def through_weather_def through_visibility_def
    by (intro held_andThen[where F = Wind]) (simp_all add: parse_time_keeps parse_modifier_keeps parse_wind_keeps parse_visibility_keeps parse_weather_keeps parse_sky_keeps parse_temp_keeps parse_press_keeps)
qed

lemma Parse_holds_visibility:
  assumes "through_visibility m raw date = Inr (mk, rk)"
  shows "Visibility (fst (Parse m raw date)) = Visibility mk"
proof -
  from assms have "Visibility (record_of (through_visibility m raw date)) = Visibility mk" by simp
  then show ?thesis unfolding Parse_record_of through_temp_def through_sky_def through_weather_def
    by (intro held_andThen[where F = Visibility]) (simp_all add: parse_time_keeps parse_modifier_keeps parse_wind_keeps parse_visibility_keeps parse_weather_keeps parse_sky_keeps parse_temp_keeps parse_press_keeps)
qed

lemma Parse_holds_weather:
  assumes "through_weather m raw date = Inr (mk, rk)"
  shows "Weather (fst (Parse m raw date)) = Weather mk"
proof -
  from assms have "Weather (record_of (through_weather m raw date)) = Weather mk" by simp
  then show ?thesis unfolding Parse_record_of through_temp_def through_sky_def
    by (intro held_andThen[where F = Weather]) (simp_all add: parse_time_keeps parse_modifier_keeps parse_wind_keeps parse_visibility_keeps parse_weather_keeps parse_sky_keeps parse_temp_keeps parse_press_keeps)
qed

lemma Parse_holds_sky:
  assumes "through_sky m raw date = Inr (mk, rk)"
  shows "Sky (fst (Parse m raw date)) = Sky mk"
proof -
  from assms have "Sky (record_of (through_sky m raw date)) = Sky mk" by simp
  then show ?thesis unfolding Parse_record_of through_temp_def
    by (intro held_andThen[where F = Sky]) (simp_all add: parse_time_keeps parse_modifier_keeps parse_wind_keeps parse_visibility_keeps parse_weather_keeps parse_sky_keeps parse_temp_keeps parse_press_keeps)
qed

lemma Parse_holds_temp:
  assumes "through_temp m raw date = Inr (mk, rk)"
  shows "Temp (fst (Parse m raw date)) = Temp mk \<and> DewPt (fst (Parse m raw date)) = DewPt mk"
proof -
  from assms have "Temp (record_of (through_temp m raw date)) = Temp mk" "DewPt (record_of (through_temp m raw date)) = DewPt mk"
    by simp_all
  then show ?thesis unfolding Parse_record_of
    by (auto intro!: held_andThen[where F = Temp] held_andThen[where F = DewPt]
        simp: parse_press_keeps)
qed


lemma through_station_Inl:
  assumes "through_station m raw = Inl (m2, e2)"
  shows "Parse m raw date = (m2, e2) \<and> (e2 = station_error \<or> e2 = panic)"
proof -
  from assms have "Parse m raw date = (m2, e2)"
    by (simp add: Parse_def through_temp_def through_sky_def through_weather_def
        through_visibility_def through_wind_def through_modifier_def through_time_def andThen_def)
  moreover have "e2 = station_error \<or> e2 = panic"
  proof (cases "parse_type (m, raw)")
    case (Inl a)
    with assms have "parse_type (m, raw) = Inl (m2, e2)" by (simp add: through_station_def andThen_def)
    from parse_type_Inl[OF this] show ?thesis by simp
  next
    case (Inr c)
    with assms have "parse_station (fst c, snd c) = Inl (m2, e2)"
      by (simp add: through_station_def andThen_def)
    from parse_station_Inl[OF this] show ?thesis by auto
  qed
  ultimately show ?thesis ..
qed

lemma through_station_Inr:
  assumes "through_station m raw = Inr (m2, r2)"
  shows "\<exists>raw1 idx. parse_type (m, raw) = Inr (m, raw1) \<and>
    FindStringSubmatchIndex re_station raw1 = Some idx \<and>
    slice raw1 (idx ! 2) (idx ! 3) = Some (Station m2)"
proof -
  from assms obtain c where c: "parse_type (m, raw) = Inr c" "parse_station c = Inr (m2, r2)"
    by (auto simp: through_station_def dest: andThen_Inr)
  from parse_type_Inr[of m raw "fst c" "snd c"] c(1) have "fst c = m" by simp
  with c have "parse_type (m, raw) = Inr (m, snd c)" "parse_station (m, snd c) = Inr (m2, r2)"
    by (cases c; simp)+
  then show ?thesis
    by (intro exI[of _ "snd c"]) (auto simp: parse_station_def advance_def split: option.splits)
qed

text \<open>
  A caller that passes a record a second time: a decode into the record that a successful
  decode of the same pair has filled writes every scalar field with the same value again
  and appends the weather and sky entries of the report once more.
\<close>

lemma Parse_again_appends:
  assumes "Parse m rawMetar rawDate = (m1, nil)"
  shows "\<exists>ws ss. ss \<noteq> [] \<and> Weather m1 = Weather m @ ws \<and> Sky m1 = Sky m @ ss \<and>
    Parse m1 rawMetar rawDate = (m1\<lparr>Weather := Weather m1 @ ws, Sky := Sky m1 @ ss\<rparr>, nil) \<and>
    (\<forall>n. Weather n = Weather m \<and> Sky n = Sky m \<and> Mod n = Mod m \<longrightarrow>
       Parse n rawMetar rawDate = (m1, nil))"
proof -
  from Parse_nil_fill[OF assms] obtain st t md w v ws ss tp dp p
    where ss: "ss \<noteq> []"
    and f: "\<And>n. Parse n rawMetar rawDate =
       (\<lparr>Station = st, Time = t, Mod = (case md of None \<Rightarrow> Mod n | Some x \<Rightarrow> x), Wind = w,
          Visibility = v, Weather = Weather n @ ws, Sky = Sky n @ ss, Temp = tp, DewPt = dp,
          Pressure = p\<rparr>, nil)" by blast
  from f[of m] assms have m1: "m1 =
       \<lparr>Station = st, Time = t, Mod = (case md of None \<Rightarrow> Mod m | Some x \<Rightarrow> x), Wind = w,
          Visibility = v, Weather = Weather m @ ws, Sky = Sky m @ ss, Temp = tp, DewPt = dp,
          Pressure = p\<rparr>" by simp
  have "Parse m1 rawMetar rawDate = (m1\<lparr>Weather := Weather m1 @ ws, Sky := Sky m1 @ ss\<rparr>, nil)"
    by (cases md) (simp_all add: f m1)
  moreover have "Parse n rawMetar rawDate = (m1, nil)"
    if "Weather n = Weather m \<and> Sky n = Sky m \<and> Mod n = Mod m" for n
    using that by (cases md) (simp_all add: f m1)
  ultimately show ?thesis using ss m1 by (intro exI[of _ ws] exI[of _ ss]) simp
qed

section \<open>Claims\<close>

lemma Parse_press:
  "through_temp m rawMetar rawDate = Inr c \<Longrightarrow>
     Parse m rawMetar rawDate = (case parse_press c of Inl r \<Rightarrow> r | Inr (m', raw) \<Rightarrow> (m', nil))"
  by (simp add: Parse_def andThen_def)

subsection \<open>Sample reports\<close>

text \<open>
  The decode of \<^verbatim>\<open>YSSY 100000Z VRB05KT 9999 FEW030 15/10 Q1013\<close> against the reference
  date \<^verbatim>\<open>2023/06/10 09:00\<close>, up to the pressure step and as a whole.
\<close>

lemma sample_through_temp:
  "through_temp Metar0 ''YSSY 100000Z VRB05KT 9999 FEW030 15/10 Q1013'' ''2023/06/10 09:00'' =
     Inr (\<lparr>Station = ''YSSY'', Time = 1686355200, Mod = [],
       Wind = \<lparr>Vrb = True, Dir = 0, Spd = 5, Gust = 0, VarFrom = 0, VarTo = 0\<rparr>,
       Visibility = 9999, Weather = [],
       Sky = [\<lparr>Cover = ''FEW'', Height = 30, Cloud = []\<rparr>],
       Temp = 15, DewPt = 10, Pressure = 0\<rparr>, ''Q1013'')"
  by code_simp

subsection \<open>C1: a temperature group without dew point\<close>

text \<open>
  C1. With a report whose temperature group is \<^verbatim>\<open>M05/\<close> (dew point absent) the decode
  should end in an error value. The code reads the dew-point capture without the guard its
  other optional captures have: \<^verbatim>\<open>rawMetar[idx[6]:idx[7]]\<close> is \<^verbatim>\<open>rawMetar[-1:-1]\<close>,
  and the call panics after the temperature has been stored.
\<close>

theorem C1_missing_dew_point_panics:
  "Parse Metar0 ''YSSY 100000Z VRB05KT 9999 FEW030 M05/ Q1013'' ''2023/06/10 09:00'' =
     (\<lparr>Station = ''YSSY'', Time = 1686355200, Mod = [],
       Wind = \<lparr>Vrb = True, Dir = 0, Spd = 5, Gust = 0, VarFrom = 0, VarTo = 0\<rparr>,
       Visibility = 9999, Weather = [],
       Sky = [\<lparr>Cover = ''FEW'', Height = 30, Cloud = []\<rparr>],
       Temp = - 5, DewPt = 0, Pressure = 0\<rparr>, panic)"
  by code_simp


subsection \<open>The pressure pattern, and more sample reports\<close>

lemma caps_press:
  "replicate (2 * (numSubexp re_press + 1)) (- 1 :: int) = [-1, -1, -1, -1, -1, -1, -1, -1]"
  by code_simp

lemma start_press:
  "start re_press p s = \<lparr>pos = p, rest = s, caps = [-1, -1, -1, -1, -1, -1, -1, -1]\<rparr>"
  by (simp only: start_def caps_press)

lemma sem_press_tail: "sem press_tail t t"
  by (auto simp: press_tail_def opt_def intro: iter_done)

lemma groups_press_tail: "groups press_tail = {3}"
  by (simp add: press_tail_def)

lemma groups_press_value: "groups press_value = {2}"
  by (simp add: press_value_def)

text \<open>
  After a unit letter and four digits the rest of the pattern (\<^verbatim>\<open>(INS)?\s*\<close>) cannot
  fail, so the first candidate of the matcher is taken whatever follows in the text.
\<close>

lemma Find_press_unit_4digits:
  assumes "\<And>y. run press_tail (accept 0)
        \<lparr>pos = 5, rest = sfx, caps = [-1, -1, 0, 1, 1, 5, -1, -1]\<rparr> = Some y \<Longrightarrow>
      run (Seq press_unit press_value) (run press_tail (accept 0)) (start re_press 0 (ahead @ sfx)) =
        Some y"
  shows "\<exists>y. FindStringSubmatchIndex re_press (ahead @ sfx) = Some y \<and>
     y ! 2 = 0 \<and> y ! 3 = 1 \<and> y ! 4 = 1 \<and> y ! 5 = 5"
proof -
  let ?T = "\<lparr>pos = 5, rest = sfx, caps = [-1, -1, 0, 1, 1, 5, -1, -1]\<rparr>"
  from accept_run_frame[where t = ?T and p = 0, OF sem_press_tail] obtain y
    where y: "run press_tail (accept 0) ?T = Some y"
      "\<forall>i. 2 \<le> i \<longrightarrow> i div 2 \<notin> groups press_tail \<longrightarrow> y ! i = caps ?T ! i" by blast
  from y(2) have "y ! 2 = 0 \<and> y ! 3 = 1 \<and> y ! 4 = 1 \<and> y ! 5 = 5"
    by (simp add: groups_press_tail)
  moreover have unf: "run re_press k t =
      (if pos t = 0 then run (Seq press_unit press_value) (run press_tail k) t else None)"
    for k :: "thread \<Rightarrow> int list option" and t
    by (simp add: re_press_def run_Seq_ext)
  from assms[OF y(1)] have "run re_press (accept 0) (start re_press 0 (ahead @ sfx)) = Some y"
    by (simp add: unf start_def)
  then have "FindStringSubmatchIndex re_press (ahead @ sfx) = Some y"
    unfolding FindStringSubmatchIndex_def by (rule execute_first)
  ultimately show ?thesis by blast
qed

lemma press_Q1013:
  "parse_press (m, ''Q1013'' @ sfx) = Inr (m\<lparr>Pressure := 1013\<rparr>, ''Q1013'' @ sfx)"
proof -
  have "\<exists>y. FindStringSubmatchIndex re_press (''Q1013'' @ sfx) = Some y \<and>
     y ! 2 = 0 \<and> y ! 3 = 1 \<and> y ! 4 = 1 \<and> y ! 5 = 5"
    by (rule Find_press_unit_4digits)
      (simp add: start_press press_unit_def press_value_def opt_def rep_def digit_def lits_def)
  then obtain y where "FindStringSubmatchIndex re_press (''Q1013'' @ sfx) = Some y"
    "y ! 2 = 0" "y ! 3 = 1" "y ! 4 = 1" "y ! 5 = 5" by blast
  then show ?thesis
    by (simp add: parse_press_def slice_def Atoi_def decimal_def digitVal_def isDigit_def)
qed

lemma press_A2992:
  "parse_press (m, ''A2992'' @ sfx) = Inl (m, Errorf ''Error interpreting metar pressure value'')"
proof -
  have "\<exists>y. FindStringSubmatchIndex re_press (''A2992'' @ sfx) = Some y \<and>
     y ! 2 = 0 \<and> y ! 3 = 1 \<and> y ! 4 = 1 \<and> y ! 5 = 5"
    by (rule Find_press_unit_4digits)
      (simp add: start_press press_unit_def press_value_def opt_def rep_def digit_def lits_def)
  then obtain y where "FindStringSubmatchIndex re_press (''A2992'' @ sfx) = Some y"
    "y ! 2 = 0" "y ! 3 = 1" "y ! 4 = 1" "y ! 5 = 5" by blast
  then show ?thesis
    by (simp add: parse_press_def slice_def)
qed

lemma press_unit_cases:
  assumes "FindStringSubmatchIndex re_press raw = Some idx"
  shows "(idx ! 2 = - 1 \<and> idx ! 3 = - 1) \<or>
         (\<exists>u\<in>set [''A'', ''Q'', ''QNH'', ''SLP'']. \<exists>r. raw = u @ r \<and>
            idx ! 2 = 0 \<and> idx ! 3 = int (length u))"
proof -
  let ?t0 = "start re_press 0 raw"
  from Find_anchored[OF assms[unfolded re_press_def]] obtain t'
    where t': "sem (Seq press_unit (Seq press_value press_tail)) ?t0 t'"
      "idx = (caps t')[0 := 0, 1 := pos t']" by (auto simp: re_press_def)
  from t'(1) obtain u where u: "sem press_unit ?t0 u"
    "sem (Seq press_value press_tail) u t'" by auto
  have idx: "idx ! 2 = caps u ! 2" "idx ! 3 = caps u ! 3"
    using sem_frame[OF u(2), of 2] sem_frame[OF u(2), of 3] t'(2)
    by (simp_all add: groups_press_value groups_press_tail)
  from u(1) have "u = ?t0 \<or> sem (Grp 1 (lits [''A'', ''Q'', ''QNH'', ''SLP''])) ?t0 u"
    by (auto simp: press_unit_def opt_def)
  then show ?thesis
  proof
    assume "u = ?t0"
    with idx show ?thesis by (simp add: start_press)
  next
    assume "sem (Grp 1 (lits [''A'', ''Q'', ''QNH'', ''SLP''])) ?t0 u"
    then obtain w r where w: "w \<in> set [''A'', ''Q'', ''QNH'', ''SLP'']" "rest ?t0 = w @ r"
      "u = ?t0\<lparr>pos := pos ?t0 + int (length w), rest := r,
       caps := (caps ?t0)[2 * 1 := pos ?t0, 2 * 1 + 1 := pos ?t0 + int (length w)]\<rparr>"
      by (rule sem_Grp_lits)
    from w(2) have "raw = w @ r" by (simp add: start_press)
    moreover from w(3) idx have "idx ! 2 = 0" "idx ! 3 = int (length w)"
      by (simp_all add: start_press)
    ultimately show ?thesis using w(1) by blast
  qed
qed

lemma press_needs_Q:
  "(\<exists>r. raw = CHR ''Q'' # r) \<or>
   parse_press (m, raw) = Inl (m, Errorf ''Error parsing metar pressure'') \<or>
   parse_press (m, raw) = Inl (m, Errorf ''Error interpreting metar pressure value'')"
proof (cases "FindStringSubmatchIndex re_press raw")
  case None
  then show ?thesis by (simp add: parse_press_def)
next
  case (Some idx)
  from press_unit_cases[OF Some] show ?thesis
  proof
    assume "idx ! 2 = - 1 \<and> idx ! 3 = - 1"
    with Some show ?thesis by (simp add: parse_press_def)
  next
    assume "\<exists>u\<in>set [''A'', ''Q'', ''QNH'', ''SLP'']. \<exists>r. raw = u @ r \<and>
            idx ! 2 = 0 \<and> idx ! 3 = int (length u)"
    then obtain u r where u: "u \<in> set [''A'', ''Q'', ''QNH'', ''SLP'']" "raw = u @ r"
      "idx ! 2 = 0" "idx ! 3 = int (length u)" by blast
    show ?thesis
    proof (cases "u = ''Q''")
      case True
      with u(2) show ?thesis by simp
    next
      case False
      moreover from u have "slice raw (idx ! 2) (idx ! 3) = Some u" by (simp add: slice_prefix)
      ultimately show ?thesis using Some u(3,4) by (simp add: parse_press_def)
    qed
  qed
qed

lemma sample_Parse:
  "Parse Metar0 ''YSSY 100000Z VRB05KT 9999 FEW030 15/10 Q1013'' ''2023/06/10 09:00'' =
     (\<lparr>Station = ''YSSY'', Time = 1686355200, Mod = [],
       Wind = \<lparr>Vrb = True, Dir = 0, Spd = 5, Gust = 0, VarFrom = 0, VarTo = 0\<rparr>,
       Visibility = 9999, Weather = [],
       Sky = [\<lparr>Cover = ''FEW'', Height = 30, Cloud = []\<rparr>],
       Temp = 15, DewPt = 10, Pressure = 1013\<rparr>, nil)"
  using Parse_press[OF sample_through_temp] press_Q1013[of _ "[]"] by simp

lemma sample_CAVOK:
  "Parse Metar0 ''YSSY 100000Z VRB05KT CAVOK 15/10 Q1013'' ''2023/06/10 09:00'' =
     (\<lparr>Station = ''YSSY'', Time = 1686355200, Mod = [],
       Wind = \<lparr>Vrb = True, Dir = 0, Spd = 5, Gust = 0, VarFrom = 0, VarTo = 0\<rparr>,
       Visibility = 0, Weather = [], Sky = [], Temp = 0, DewPt = 0, Pressure = 0\<rparr>,
      Errorf ''Error parsing metar visibility'')"
  by code_simp

lemma sample_empty:
  "Parse Metar0 [] ''2023/06/10 09:00'' = (Metar0, Errorf ''Error parsing station identifier'')"
  by code_simp

subsection \<open>C3: the observation time\<close>

lemma sample_time_group:
  "Parse Metar0 ''YSSY 101234Z VRB05KT 9999 FEW030 15/10 Q1013'' ''2023/06/10 09:00'' =
     (\<lparr>Station = ''YSSY'', Time = 1686400440, Mod = [],
       Wind = \<lparr>Vrb = True, Dir = 0, Spd = 5, Gust = 0, VarFrom = 0, VarTo = 0\<rparr>,
       Visibility = 9999, Weather = [],
       Sky = [\<lparr>Cover = ''FEW'', Height = 30, Cloud = []\<rparr>],
       Temp = 15, DewPt = 10, Pressure = 1013\<rparr>, nil)"
  by code_simp

lemma sample_dates:
  "time_Parse ''2023/06/10 09:00'' = Some \<lparr>Year = 2023, Month = 6, Day = 10, Hour = 9, Minute = 0\<rparr>"
  "time_Parse ''2023/06/25 23:59'' = Some \<lparr>Year = 2023, Month = 6, Day = 25, Hour = 23, Minute = 59\<rparr>"
  "Date 2023 6 10 12 34 = 1686400440"
  by code_simp+

text \<open>
  C3. After a successful decode the observation time is
  \<^verbatim>\<open>time.Date(t.Year(), t.Month(), day, hour, min, 0, 0, time.UTC)\<close>, where \<open>t\<close> is the
  parsed reference date and day, hour and minute are the three two-digit numbers that open
  the text left after the station step. Nothing else of the reference date enters: any
  other reference date of the same year and month gives the same result. With reference
  \<^verbatim>\<open>2023/06/10 09:00\<close> and time group \<^verbatim>\<open>101234\<close> the time is 1686400440 seconds after
  the epoch, which is 2023-06-10T12:34:00Z.
\<close>

theorem C3_observation_time:
  assumes "Parse m rawMetar rawDate = (m', nil)"
  shows "\<exists>t m2 dd hh mm sfx. time_Parse rawDate = Some t \<and>
    through_station m rawMetar = Inr (m2, dd @ hh @ mm @ sfx) \<and>
    length dd = 2 \<and> length hh = 2 \<and> length mm = 2 \<and> list_all isDigit (dd @ hh @ mm) \<and>
    Time m' = Date (Year t) (Month t) (decimal dd) (decimal hh) (decimal mm) \<and>
    (\<forall>rawDate' t'. time_Parse rawDate' = Some t' \<and> Year t' = Year t \<and> Month t' = Month t \<longrightarrow>
       Parse m rawMetar rawDate' = (m', nil))"
proof -
  from assms obtain raw2 raw3 st t md w v ws ss tp dp p where d:
    "through_station m rawMetar = Inr (m\<lparr>Station := st\<rparr>, raw2)"
    "parse_time rawDate (m\<lparr>Station := st\<rparr>, raw2) = Inr (m\<lparr>Station := st, Time := t\<rparr>, raw3)"
    "\<forall>n. Parse n rawMetar rawDate =
       (\<lparr>Station = st, Time = t, Mod = (case md of None \<Rightarrow> Mod n | Some x \<Rightarrow> x), Wind = w,
          Visibility = v, Weather = Weather n @ ws, Sky = Sky n @ ss, Temp = tp, DewPt = dp,
          Pressure = p\<rparr>, nil)"
    by (rule Parse_nil_detail)
  from d(3) assms have "Time m' = t" by auto
  moreover from parse_time_digits[OF d(2)] obtain c dd hh mm sfx where c:
    "time_Parse rawDate = Some c" "raw2 = dd @ hh @ mm @ sfx"
    "length dd = 2" "length hh = 2" "length mm = 2" "list_all isDigit (dd @ hh @ mm)"
    "m\<lparr>Station := st, Time := t\<rparr> =
       m\<lparr>Station := st, Time := Date (Year c) (Month c) (decimal dd) (decimal hh) (decimal mm)\<rparr>"
    by auto
  moreover from c(7) have "t = Date (Year c) (Month c) (decimal dd) (decimal hh) (decimal mm)"
    by (metis Metar.select_convs(2) Metar.surjective Metar.update_convs(2))
  moreover have "Parse m rawMetar rawDate' = (m', nil)"
    if "time_Parse rawDate' = Some t' \<and> Year t' = Year c \<and> Month t' = Month c" for rawDate' t'
    using Parse_same_month[of rawDate' t' rawDate c m rawMetar] that c(1) assms by simp
  ultimately show ?thesis using d(1) by blast
qed

theorem C3_observation_time_witness:
  "Time (fst (Parse Metar0 ''YSSY 101234Z VRB05KT 9999 FEW030 15/10 Q1013'' ''2023/06/10 09:00'')) =
     1686400440 \<and>
   Date 2023 6 10 12 34 = 1686400440 \<and>
   Parse Metar0 ''YSSY 101234Z VRB05KT 9999 FEW030 15/10 Q1013'' ''2023/06/25 23:59'' =
   Parse Metar0 ''YSSY 101234Z VRB05KT 9999 FEW030 15/10 Q1013'' ''2023/06/10 09:00''"
proof -
  from C3_observation_time[OF sample_time_group] obtain t where t:
    "time_Parse ''2023/06/10 09:00'' = Some t"
    "\<forall>rawDate' t'. time_Parse rawDate' = Some t' \<and> Year t' = Year t \<and> Month t' = Month t \<longrightarrow>
       Parse Metar0 ''YSSY 101234Z VRB05KT 9999 FEW030 15/10 Q1013'' rawDate' =
         (\<lparr>Station = ''YSSY'', Time = 1686400440, Mod = [],
       Wind = \<lparr>Vrb = True, Dir = 0, Spd = 5, Gust = 0, VarFrom = 0, VarTo = 0\<rparr>,
       Visibility = 9999, Weather = [],
       Sky = [\<lparr>Cover = ''FEW'', Height = 30, Cloud = []\<rparr>],
       Temp = 15, DewPt = 10, Pressure = 1013\<rparr>, nil)"
    by blast
  from t(1) have "Year t = 2023" "Month t = 6" by (auto simp: sample_dates)
  with t(2) sample_dates(2) have
    "Parse Metar0 ''YSSY 101234Z VRB05KT 9999 FEW030 15/10 Q1013'' ''2023/06/25 23:59'' =
      Parse Metar0 ''YSSY 101234Z VRB05KT 9999 FEW030 15/10 Q1013'' ''2023/06/10 09:00''"
    by (simp add: sample_time_group)
  then show ?thesis by (simp add: sample_time_group sample_dates)
qed

subsection \<open>C8: a variable wind\<close>

text \<open>
  C8. When the decode reaches the wind step with text that begins \<^verbatim>\<open>VRB05KT\<close> and a
  blank, the wind step succeeds and stores a wind with the variable flag set, speed 5,
  direction 0 and gust 0, whatever follows in the text (a variable range there fills the
  two range fields). No later step touches the wind: however the call ends, the record
  holds that wind.
\<close>

theorem C8_variable_wind:
  assumes "through_modifier m rawMetar rawDate = Inr (m4, ''VRB05KT '' @ sfx)"
  shows "\<exists>w raw'. through_wind m rawMetar rawDate = Inr (m4\<lparr>Wind := w\<rparr>, raw') \<and>
    Vrb w \<and> Spd w = 5 \<and> Dir w = 0 \<and> Gust w = 0 \<and>
    (\<forall>m' e. Parse m rawMetar rawDate = (m', e) \<longrightarrow> Wind m' = w)"
proof -
  from parse_wind_VRB05KT[of m4 sfx] obtain a b raw' where
    "parse_wind (m4, ''VRB05KT '' @ sfx) =
     Inr (m4\<lparr>Wind := \<lparr>Vrb = True, Dir = 0, Spd = 5, Gust = 0, VarFrom = a, VarTo = b\<rparr>\<rparr>, raw')"
    by blast
  with assms have t: "through_wind m rawMetar rawDate =
     Inr (m4\<lparr>Wind := \<lparr>Vrb = True, Dir = 0, Spd = 5, Gust = 0, VarFrom = a, VarTo = b\<rparr>\<rparr>, raw')"
    by (simp add: through_wind_def andThen_def)
  from Parse_keeps_Wind[OF t]
  have "\<forall>m' e. Parse m rawMetar rawDate = (m', e) \<longrightarrow>
    Wind m' = \<lparr>Vrb = True, Dir = 0, Spd = 5, Gust = 0, VarFrom = a, VarTo = b\<rparr>"
    by simp
  with t show ?thesis
    by (intro exI[of _ "\<lparr>Vrb = True, Dir = 0, Spd = 5, Gust = 0, VarFrom = a, VarTo = b\<rparr>"]
        exI[of _ raw']) simp
qed

lemma sample_through_modifier:
  "through_modifier Metar0 ''YSSY 100000Z VRB05KT 9999 FEW030 15/10 Q1013'' ''2023/06/10 09:00'' =
     Inr (Metar0\<lparr>Station := ''YSSY'', Time := 1686355200\<rparr>, ''VRB05KT 9999 FEW030 15/10 Q1013'')"
  by code_simp

theorem C8_variable_wind_witness:
  "Vrb (Wind (fst (Parse Metar0 ''YSSY 100000Z VRB05KT 9999 FEW030 15/10 Q1013''
      ''2023/06/10 09:00''))) \<and>
   Spd (Wind (fst (Parse Metar0 ''YSSY 100000Z VRB05KT 9999 FEW030 15/10 Q1013''
      ''2023/06/10 09:00''))) = 5 \<and>
   Dir (Wind (fst (Parse Metar0 ''YSSY 100000Z VRB05KT 9999 FEW030 15/10 Q1013''
      ''2023/06/10 09:00''))) = 0"
proof -
  have "through_modifier Metar0 ''YSSY 100000Z VRB05KT 9999 FEW030 15/10 Q1013'' ''2023/06/10 09:00'' =
     Inr (Metar0\<lparr>Station := ''YSSY'', Time := 1686355200\<rparr>,
       ''VRB05KT '' @ ''9999 FEW030 15/10 Q1013'')"
    by (simp add: sample_through_modifier)
  from C8_variable_wind[OF this] obtain w where w: "Vrb w" "Spd w = 5" "Dir w = 0"
    "\<forall>m' e. Parse Metar0 ''YSSY 100000Z VRB05KT 9999 FEW030 15/10 Q1013'' ''2023/06/10 09:00'' =
       (m', e) \<longrightarrow> Wind m' = w" by blast
  let ?P = "Parse Metar0 ''YSSY 100000Z VRB05KT 9999 FEW030 15/10 Q1013'' ''2023/06/10 09:00''"
  have "?P = (fst ?P, snd ?P)" by simp
  with w(4) have "Wind (fst ?P) = w" by blast
  with w(1-3) show ?thesis by simp
qed

subsection \<open>C10: visibility without the four-digit distance\<close>

lemma Parse_visibility:
  assumes "through_wind m raw date = Inr c"
  shows "parse_visibility c = Inl r \<Longrightarrow> Parse m raw date = r"
    and "through_visibility m raw date = parse_visibility c"
  using assms
  by (simp_all add: Parse_def through_temp_def through_sky_def through_weather_def
      through_visibility_def andThen_def)

lemma parse_visibility_accepts:
  assumes "parse_visibility (m, raw) = Inr (m', raw')"
  shows "\<exists>idx ds. FindStringSubmatchIndex re_visibility raw = Some idx \<and> idx ! 4 \<noteq> - 1 \<and>
    idx ! 5 \<noteq> - 1 \<and> slice raw (idx ! 4) (idx ! 5) = Some ds \<and> Atoi ds = Some (Visibility m')"
  using assms by (auto simp: parse_visibility_def advance_def split: option.splits if_splits)

text \<open>
Claim C10. The visibility pattern also admits \<^verbatim>\<open>CAVOK\<close> and the unit-suffixed forms, but
\<^verbatim>\<open>Parse\<close> tests the offsets of the four-digit \<^verbatim>\<open>dist\<close> group (\<^verbatim>\<open>idx[4]\<close>, \<^verbatim>\<open>idx[5]\<close>) only.
Let the steps up to the wind have succeeded with \<open>ahead\<close> left to read. If the first match of
the visibility pattern in \<open>ahead\<close> took the unit-suffixed branch (its \<^verbatim>\<open>distu\<close> group,
\<^verbatim>\<open>idx[10]\<close>, is set) or is the token \<^verbatim>\<open>CAVOK\<close>, the call ends with
\<^verbatim>\<open>Error parsing metar visibility\<close> and the record as the wind step left it; this is the case
in particular when \<open>ahead\<close> begins with \<^verbatim>\<open>CAVOK\<close> or \<^verbatim>\<open>10SM\<close> followed by a space. Conversely,
whenever the visibility step succeeds, the \<^verbatim>\<open>dist\<close> group is present and the visibility
stored is its decimal value.
\<close>

theorem C10_visibility_needs_distance_group:
  assumes "through_wind m rawMetar rawDate = Inr (m5, ahead)"
  shows "(\<forall>idx. FindStringSubmatchIndex re_visibility ahead = Some idx \<and>
        (idx ! 10 \<noteq> - 1 \<or> (\<exists>r. drop (nat (idx ! 0)) ahead = ''CAVOK'' @ r)) \<longrightarrow>
      Parse m rawMetar rawDate = (m5, Errorf ''Error parsing metar visibility'')) \<and>
    (ahead = ''CAVOK '' @ sfx \<or> ahead = ''10SM '' @ sfx \<longrightarrow>
      Parse m rawMetar rawDate = (m5, Errorf ''Error parsing metar visibility'')) \<and>
    (\<forall>m6 raw6. through_visibility m rawMetar rawDate = Inr (m6, raw6) \<longrightarrow>
      (\<exists>idx ds. FindStringSubmatchIndex re_visibility ahead = Some idx \<and> idx ! 4 \<noteq> - 1 \<and>
         idx ! 5 \<noteq> - 1 \<and> slice ahead (idx ! 4) (idx ! 5) = Some ds \<and>
         Atoi ds = Some (Visibility m6)))"
proof (intro conjI allI impI)
  fix idx
  assume "FindStringSubmatchIndex re_visibility ahead = Some idx \<and>
        (idx ! 10 \<noteq> - 1 \<or> (\<exists>r. drop (nat (idx ! 0)) ahead = ''CAVOK'' @ r))"
  then have "parse_visibility (m5, ahead) = Inl (m5, Errorf ''Error parsing metar visibility'')"
    by (intro parse_visibility_rejects[of ahead idx]) simp_all
  then show "Parse m rawMetar rawDate = (m5, Errorf ''Error parsing metar visibility'')"
    by (rule Parse_visibility(1)[OF assms])
next
  assume a: "ahead = ''CAVOK '' @ sfx \<or> ahead = ''10SM '' @ sfx"
  have "\<exists>y. FindStringSubmatchIndex re_visibility ahead = Some y \<and> y ! 4 = - 1"
    using a Find_visibility_CAVOK[of sfx] Find_visibility_10SM[of sfx] by metis
  then have "parse_visibility (m5, ahead) = Inl (m5, Errorf ''Error parsing metar visibility'')"
    by (auto simp: parse_visibility_def)
  then show "Parse m rawMetar rawDate = (m5, Errorf ''Error parsing metar visibility'')"
    by (rule Parse_visibility(1)[OF assms])
next
  fix m6 raw6
  assume "through_visibility m rawMetar rawDate = Inr (m6, raw6)"
  with Parse_visibility(2)[OF assms] have "parse_visibility (m5, ahead) = Inr (m6, raw6)" by simp
  then show "\<exists>idx ds. FindStringSubmatchIndex re_visibility ahead = Some idx \<and> idx ! 4 \<noteq> - 1 \<and>
         idx ! 5 \<noteq> - 1 \<and> slice ahead (idx ! 4) (idx ! 5) = Some ds \<and>
         Atoi ds = Some (Visibility m6)"
    by (rule parse_visibility_accepts)
qed

lemma sample_through_wind_CAVOK:
  "through_wind Metar0 ''YSSY 100000Z VRB05KT CAVOK 15/10 Q1013'' ''2023/06/10 09:00'' =
     Inr (\<lparr>Station = ''YSSY'', Time = 1686355200, Mod = [],
       Wind = \<lparr>Vrb = True, Dir = 0, Spd = 5, Gust = 0, VarFrom = 0, VarTo = 0\<rparr>,
       Visibility = 0, Weather = [], Sky = [], Temp = 0, DewPt = 0, Pressure = 0\<rparr>,
      ''CAVOK 15/10 Q1013'')"
  by code_simp

lemma sample_through_wind_10SM:
  "through_wind Metar0 ''KJFK 100000Z 24015KT 10SM FEW030 15/10 Q1013'' ''2023/06/10 09:00'' =
     Inr (\<lparr>Station = ''KJFK'', Time = 1686355200, Mod = [],
       Wind = \<lparr>Vrb = False, Dir = 240, Spd = 15, Gust = 0, VarFrom = 0, VarTo = 0\<rparr>,
       Visibility = 0, Weather = [], Sky = [], Temp = 0, DewPt = 0, Pressure = 0\<rparr>,
      ''10SM FEW030 15/10 Q1013'')"
  by code_simp

theorem C10_visibility_witness:
  "Parse Metar0 ''YSSY 100000Z VRB05KT CAVOK 15/10 Q1013'' ''2023/06/10 09:00'' =
     (\<lparr>Station = ''YSSY'', Time = 1686355200, Mod = [],
       Wind = \<lparr>Vrb = True, Dir = 0, Spd = 5, Gust = 0, VarFrom = 0, VarTo = 0\<rparr>,
       Visibility = 0, Weather = [], Sky = [], Temp = 0, DewPt = 0, Pressure = 0\<rparr>,
      Errorf ''Error parsing metar visibility'') \<and>
   Parse Metar0 ''KJFK 100000Z 24015KT 10SM FEW030 15/10 Q1013'' ''2023/06/10 09:00'' =
     (\<lparr>Station = ''KJFK'', Time = 1686355200, Mod = [],
       Wind = \<lparr>Vrb = False, Dir = 240, Spd = 15, Gust = 0, VarFrom = 0, VarTo = 0\<rparr>,
       Visibility = 0, Weather = [], Sky = [], Temp = 0, DewPt = 0, Pressure = 0\<rparr>,
      Errorf ''Error parsing metar visibility'')"
  using C10_visibility_needs_distance_group[OF sample_through_wind_CAVOK, of "''15/10 Q1013''"]
    C10_visibility_needs_distance_group[OF sample_through_wind_10SM, of "''FEW030 15/10 Q1013''"]
  by simp

subsection \<open>C7: signed temperature and dew point\<close>

lemma parse_press_record:
  "parse_press (m, raw) = Inl (m', e) \<Longrightarrow> m' = m"
  "parse_press (m, raw) = Inr (m', raw') \<Longrightarrow> Temp m' = Temp m \<and> DewPt m' = DewPt m"
  by (auto simp: parse_press_def split: option.splits if_splits)

text \<open>
Claim C7. Let the decode have reached the temperature step with text that begins with a
temperature group of two numbers, each a run of at most 18 digits with an optional sign
(the letter \<^verbatim>\<open>M\<close>, or \<^verbatim>\<open>-\<close>) in front, separated by a slash and followed by a blank. Then the
step succeeds, and each value stored is the decimal value of its digits, negated exactly
when its sign is there: the sign of the temperature and the sign of the dew point act
independently. The pressure step that follows leaves both values alone, so the record the
call ends with holds them, however it ends. For the group \<^verbatim>\<open>M05/M10\<close> the values are
\<open>-5\<close> and \<open>-10\<close>.
\<close>

theorem C7_sign_letter_negates:
  assumes "through_sky m rawMetar rawDate = Inr (m8, s1 @ d1 @ ''/'' @ s2 @ d2 @ '' '' @ sfx)"
    and "s1 \<in> {[], ''M'', ''-''}" "list_all isDigit d1" "d1 \<noteq> []" "length d1 \<le> 18"
    and "s2 \<in> {[], ''M'', ''-''}" "list_all isDigit d2" "d2 \<noteq> []" "length d2 \<le> 18"
  shows "(\<exists>raw'. through_temp m rawMetar rawDate =
      Inr (m8\<lparr>Temp := (if s1 = [] then decimal d1 else - decimal d1),
             DewPt := (if s2 = [] then decimal d2 else - decimal d2)\<rparr>, raw')) \<and>
    (\<forall>m' e. Parse m rawMetar rawDate = (m', e) \<longrightarrow>
      Temp m' = (if s1 = [] then decimal d1 else - decimal d1) \<and>
      DewPt m' = (if s2 = [] then decimal d2 else - decimal d2))"
proof -
  from parse_temp_signed[where m = m8 and sfx = sfx, OF assms(2-4) assms(6-8) refl assms(5,9)]
  obtain raw' where "parse_temp (m8, s1 @ d1 @ ''/'' @ s2 @ d2 @ '' '' @ sfx) =
    Inr (m8\<lparr>Temp := (if s1 = [] then decimal d1 else - decimal d1),
           DewPt := (if s2 = [] then decimal d2 else - decimal d2)\<rparr>, raw')" by blast
  with assms(1) have t: "through_temp m rawMetar rawDate =
    Inr (m8\<lparr>Temp := (if s1 = [] then decimal d1 else - decimal d1),
           DewPt := (if s2 = [] then decimal d2 else - decimal d2)\<rparr>, raw')"
    by (simp add: through_temp_def andThen_def)
  let ?m9 = "m8\<lparr>Temp := (if s1 = [] then decimal d1 else - decimal d1),
           DewPt := (if s2 = [] then decimal d2 else - decimal d2)\<rparr>"
  have "Temp m' = Temp ?m9 \<and> DewPt m' = DewPt ?m9" if "Parse m rawMetar rawDate = (m', e)" for m' e
  proof (cases "parse_press (?m9, raw')")
    case (Inl r)
    with that Parse_press[OF t] have "parse_press (?m9, raw') = Inl (m', e)" by simp
    from parse_press_record(1)[OF this] show ?thesis by simp
  next
    case (Inr c)
    with that Parse_press[OF t] have "parse_press (?m9, raw') = Inr (m', snd c)"
      by (cases c) simp
    from parse_press_record(2)[OF this] show ?thesis .
  qed
  with t show ?thesis by simp
qed

lemma sample_through_sky_M05_M10:
  "through_sky Metar0 ''YSSY 100000Z VRB05KT 9999 FEW030 M05/M10 Q1013'' ''2023/06/10 09:00'' =
     Inr (\<lparr>Station = ''YSSY'', Time = 1686355200, Mod = [],
       Wind = \<lparr>Vrb = True, Dir = 0, Spd = 5, Gust = 0, VarFrom = 0, VarTo = 0\<rparr>,
       Visibility = 9999, Weather = [],
       Sky = [\<lparr>Cover = ''FEW'', Height = 30, Cloud = []\<rparr>],
       Temp = 0, DewPt = 0, Pressure = 0\<rparr>, ''M05/M10 Q1013'')"
  by code_simp

theorem C7_sign_letter_witness:
  "(\<exists>raw'. through_temp Metar0 ''YSSY 100000Z VRB05KT 9999 FEW030 M05/M10 Q1013''
       ''2023/06/10 09:00'' =
     Inr (\<lparr>Station = ''YSSY'', Time = 1686355200, Mod = [],
       Wind = \<lparr>Vrb = True, Dir = 0, Spd = 5, Gust = 0, VarFrom = 0, VarTo = 0\<rparr>,
       Visibility = 9999, Weather = [],
       Sky = [\<lparr>Cover = ''FEW'', Height = 30, Cloud = []\<rparr>],
       Temp = - 5, DewPt = - 10, Pressure = 0\<rparr>, raw')) \<and>
   Temp (fst (Parse Metar0 ''YSSY 100000Z VRB05KT 9999 FEW030 M05/M10 Q1013''
      ''2023/06/10 09:00'')) = - 5 \<and>
   DewPt (fst (Parse Metar0 ''YSSY 100000Z VRB05KT 9999 FEW030 M05/M10 Q1013''
      ''2023/06/10 09:00'')) = - 10"
proof -
  let ?P = "Parse Metar0 ''YSSY 100000Z VRB05KT 9999 FEW030 M05/M10 Q1013'' ''2023/06/10 09:00''"
  have v: "decimal ''05'' = 5" "decimal ''10'' = 10" by (simp_all add: decimal_def digitVal_def)
  have d: "list_all isDigit ''05''" "list_all isDigit ''10''" by (simp_all add: isDigit_def)
  have "through_sky Metar0 ''YSSY 100000Z VRB05KT 9999 FEW030 M05/M10 Q1013'' ''2023/06/10 09:00'' =
     Inr (\<lparr>Station = ''YSSY'', Time = 1686355200, Mod = [],
       Wind = \<lparr>Vrb = True, Dir = 0, Spd = 5, Gust = 0, VarFrom = 0, VarTo = 0\<rparr>,
       Visibility = 9999, Weather = [],
       Sky = [\<lparr>Cover = ''FEW'', Height = 30, Cloud = []\<rparr>],
       Temp = 0, DewPt = 0, Pressure = 0\<rparr>, ''M'' @ ''05'' @ ''/'' @ ''M'' @ ''10'' @ '' '' @ ''Q1013'')"
    by (simp add: sample_through_sky_M05_M10)
  from C7_sign_letter_negates[OF this _ d(1) _ _ _ d(2)]
  have c: "(\<exists>raw'. through_temp Metar0 ''YSSY 100000Z VRB05KT 9999 FEW030 M05/M10 Q1013''
       ''2023/06/10 09:00'' =
     Inr (\<lparr>Station = ''YSSY'', Time = 1686355200, Mod = [],
       Wind = \<lparr>Vrb = True, Dir = 0, Spd = 5, Gust = 0, VarFrom = 0, VarTo = 0\<rparr>,
       Visibility = 9999, Weather = [],
       Sky = [\<lparr>Cover = ''FEW'', Height = 30, Cloud = []\<rparr>],
       Temp = - 5, DewPt = - 10, Pressure = 0\<rparr>, raw'))"
    "\<forall>m' e. ?P = (m', e) \<longrightarrow> Temp m' = - 5 \<and> DewPt m' = - 10"
    by (simp_all add: v)
  have "?P = (fst ?P, snd ?P)" by simp
  with c(2) have "Temp (fst ?P) = - 5 \<and> DewPt (fst ?P) = - 10" by blast
  with c(1) show ?thesis by simp
qed

subsection \<open>C9: repeated groups\<close>











subsection \<open>C5: the pressure step\<close>

text \<open>
  Every match of the pressure pattern: an optional unit, one of the four the pattern
  names, then the value, three or four digits or four slashes, with the offsets of the two
  groups.
\<close>

lemma sem_rep_3_4_digit:
  assumes "sem (rep 3 4 digit) t v"
  obtains x where "rest t = x @ rest v" "pos v = pos t + int (length x)" "list_all isDigit x"
    "length x = 3 \<or> length x = 4" "caps v = caps t"
proof -
  from sem_chars[OF assms] obtain x where x: "rest t = x @ rest v"
    "pos v = pos t + int (length x)" "set x \<subseteq> chars (rep 3 4 digit)" by blast
  from x(3) chars_rep[of 3 4 digit] have d: "list_all isDigit x" by (intro digits_isDigit) auto
  from assms obtain w where w: "sem (times 3 digit) t w" "sem (upto 1 digit) w v"
    unfolding rep_def by (auto elim: sem_SeqE)
  from sem_width[OF w(1)] have pw: "pos w = pos t + 3" by simp
  from w(2) have "sem (opt (Seq digit Eps)) w v" by simp
  then have "pos v = pos w \<or> pos v = pos w + 1"
  proof (cases rule: sem_optE)
    case 1
    then show ?thesis by simp
  next
    case 2
    from sem_width[OF 2] show ?thesis by simp
  qed
  with pw x(2) have "length x = 3 \<or> length x = 4" by auto
  moreover have "groups (rep 3 4 digit) = {}" by simp
  from sem_nogroups[OF assms this] have "caps v = caps t" .
  ultimately show ?thesis using x(1,2) d that by blast
qed

lemma press_match:
  assumes "FindStringSubmatchIndex re_press raw = Some idx"
  shows "\<exists>u x r. raw = u @ x @ r \<and>
    (if u = [] then idx ! 2 = - 1 \<and> idx ! 3 = - 1
     else u \<in> set [''A'', ''Q'', ''QNH'', ''SLP''] \<and> idx ! 2 = 0 \<and> idx ! 3 = int (length u)) \<and>
    idx ! 4 = int (length u) \<and> idx ! 5 = int (length u) + int (length x) \<and>
    (x = ''////'' \<or> (list_all isDigit x \<and> (length x = 3 \<or> length x = 4)))"
proof -
  let ?t0 = "start re_press 0 raw"
  from assms obtain t' where t': "sem (Seq press_unit (Seq press_value press_tail)) ?t0 t'"
    "idx = (caps t')[0 := 0, 1 := pos t']"
    by (rule Find_anchored_at[OF re_press_def])
  from t'(1) obtain u1 where u1: "sem press_unit ?t0 u1"
    "sem (Seq press_value press_tail) u1 t'" by (rule sem_SeqE)
  from u1(2) obtain u2 where u2: "sem press_value u1 u2" "sem press_tail u2 t'"
    by (rule sem_SeqE)
  have l0: "length (caps ?t0) = 8" by (simp add: start_press)
  from sem_length_caps[OF u1(1)] l0 have l1: "length (caps u1) = 8" by simp
  from sem_length_caps[OF u2(1)] l1 have l2: "length (caps u2) = 8" by simp
  from sem_length_caps[OF u2(2)] l2 have l': "length (caps t') = 8" by simp
  have fr: "caps t' ! i = caps u2 ! i" if "i div 2 \<noteq> 3" for i
    using sem_frame[OF u2(2), of i] that by (simp add: groups_press_tail)
  from t'(2) l' fr[of 2] fr[of 3] fr[of 4] fr[of 5]
  have idx: "idx ! 2 = caps u2 ! 2" "idx ! 3 = caps u2 ! 3" "idx ! 4 = caps u2 ! 4"
    "idx ! 5 = caps u2 ! 5" by simp_all
  from u1(1) have "\<exists>u r1. raw = u @ r1 \<and> rest u1 = r1 \<and> pos u1 = int (length u) \<and>
    (if u = [] then caps u1 ! 2 = - 1 \<and> caps u1 ! 3 = - 1
     else u \<in> set [''A'', ''Q'', ''QNH'', ''SLP''] \<and> caps u1 ! 2 = 0 \<and>
       caps u1 ! 3 = int (length u))"
    unfolding press_unit_def
  proof (cases rule: sem_optE)
    case 1
    then show ?thesis by (intro exI[of _ "[]"] exI[of _ raw]) (simp add: start_press)
  next
    case 2
    then obtain w r where w: "w \<in> set [''A'', ''Q'', ''QNH'', ''SLP'']" "rest ?t0 = w @ r"
      "u1 = ?t0\<lparr>pos := pos ?t0 + int (length w), rest := r,
         caps := (caps ?t0)[2 * 1 := pos ?t0, 2 * 1 + 1 := pos ?t0 + int (length w)]\<rparr>"
      by (rule sem_Grp_lits)
    from w(1) have "w \<noteq> []" by auto
    with w show ?thesis by (intro exI[of _ w] exI[of _ r]) (simp add: start_press)
  qed
  then obtain u r1 where u: "raw = u @ r1" "rest u1 = r1" "pos u1 = int (length u)"
    "if u = [] then caps u1 ! 2 = - 1 \<and> caps u1 ! 3 = - 1
     else u \<in> set [''A'', ''Q'', ''QNH'', ''SLP''] \<and> caps u1 ! 2 = 0 \<and>
       caps u1 ! 3 = int (length u)" by blast
  from u2(1) obtain v where v: "sem (alts [rep 3 4 digit, lit ''////'']) u1 v"
    "u2 = v\<lparr>caps := (caps v)[2 * 2 := pos u1, 2 * 2 + 1 := pos v]\<rparr>"
    unfolding press_value_def by (rule sem_GrpE)
  from v(1) have "sem (Alt (rep 3 4 digit) (lit ''////'')) u1 v" by simp
  then have "\<exists>x. rest u1 = x @ rest v \<and> pos v = pos u1 + int (length x) \<and> caps v = caps u1 \<and>
    (x = ''////'' \<or> (list_all isDigit x \<and> (length x = 3 \<or> length x = 4)))"
  proof (cases rule: sem_AltE)
    case 1
    then obtain x where "rest u1 = x @ rest v" "pos v = pos u1 + int (length x)"
      "list_all isDigit x" "length x = 3 \<or> length x = 4" "caps v = caps u1"
      by (rule sem_rep_3_4_digit)
    then show ?thesis by blast
  next
    case 2
    then show ?thesis unfolding sem_lit by (intro exI[of _ "''////''"]) auto
  qed
  then obtain x where x: "rest u1 = x @ rest v" "pos v = pos u1 + int (length x)"
    "caps v = caps u1"
    "x = ''////'' \<or> (list_all isDigit x \<and> (length x = 3 \<or> length x = 4))" by blast
  from v(2) x(3) l1 have c2: "caps u2 ! 2 = caps u1 ! 2" "caps u2 ! 3 = caps u1 ! 3"
    "caps u2 ! 4 = pos u1" "caps u2 ! 5 = pos v" by simp_all
  from u(1,2) x(1) have "raw = u @ x @ rest v" by simp
  with u(3,4) x(2,4) c2 idx show ?thesis
    by (intro exI[of _ u] exI[of _ x] exI[of _ "rest v"]) (simp split: if_splits)
qed

text \<open>What the pressure step does with a match: only the unit \<^verbatim>\<open>Q\<close> leads on.\<close>

lemma parse_press_Inr_Q:
  assumes "parse_press (m, raw) = Inr (m', raw')"
  shows "\<exists>ds r. raw = CHR ''Q'' # ds @ r \<and> (length ds = 3 \<or> length ds = 4) \<and>
    list_all isDigit ds \<and> m' = m\<lparr>Pressure := decimal ds\<rparr>"
proof -
  from assms obtain idx t v where i: "FindStringSubmatchIndex re_press raw = Some idx"
    "idx ! 2 \<noteq> - 1" "slice raw (idx ! 2) (idx ! 3) = Some ''Q''"
    "slice raw (idx ! 4) (idx ! 5) = Some t" "Atoi t = Some v" "m' = m\<lparr>Pressure := v\<rparr>"
    by (auto simp: parse_press_def split: option.splits if_splits)
  from press_match[OF i(1)] obtain u x r where m: "raw = u @ x @ r"
    "if u = [] then idx ! 2 = - 1 \<and> idx ! 3 = - 1
     else u \<in> set [''A'', ''Q'', ''QNH'', ''SLP''] \<and> idx ! 2 = 0 \<and> idx ! 3 = int (length u)"
    "idx ! 4 = int (length u)" "idx ! 5 = int (length u) + int (length x)"
    "x = ''////'' \<or> (list_all isDigit x \<and> (length x = 3 \<or> length x = 4))" by blast
  from m(2) i(2) have u: "u \<noteq> []" "idx ! 2 = 0" "idx ! 3 = int (length u)"
    by (auto split: if_splits)
  from slice_prefix[of u "x @ r"] m(1) u i(3) have "u = ''Q''" by simp
  from slice_middle[of u x r] m(1,3,4) i(4) have "t = x" by simp
  with i(5) m(5) have d: "list_all isDigit x" "length x = 3 \<or> length x = 4"
    by (auto simp: Atoi_def isDigit_def)
  then have "Atoi x = Some (decimal x)" by (intro Atoi_digits) auto
  with i(5,6) \<open>t = x\<close> have "m' = m\<lparr>Pressure := decimal x\<rparr>" by simp
  with m(1) \<open>u = ''Q''\<close> d show ?thesis by (intro exI[of _ x] exI[of _ r]) simp
qed

lemma parse_press_Inl_errors:
  assumes "parse_press (m, raw) = Inl (m', e)"
  shows "m' = m \<and> (e = Errorf ''Error parsing metar pressure'' \<or>
    e = Errorf ''Error interpreting metar pressure value'' \<or>
    e = Errorf ''Error converting pressure value in metar'')"
proof (cases "FindStringSubmatchIndex re_press raw")
  case None
  with assms show ?thesis by (simp add: parse_press_def)
next
  case (Some idx)
  from press_match[OF Some] obtain u x r where m: "raw = u @ x @ r"
    "if u = [] then idx ! 2 = - 1 \<and> idx ! 3 = - 1
     else u \<in> set [''A'', ''Q'', ''QNH'', ''SLP''] \<and> idx ! 2 = 0 \<and> idx ! 3 = int (length u)"
    "idx ! 4 = int (length u)" "idx ! 5 = int (length u) + int (length x)" by blast
  show ?thesis
  proof (cases "u = []")
    case True
    with m(2) Some assms show ?thesis by (simp add: parse_press_def)
  next
    case False
    with m(2) have i: "idx ! 2 = 0" "idx ! 3 = int (length u)" by simp_all
    from slice_prefix[of u "x @ r"] m(1) i have s1: "slice raw (idx ! 2) (idx ! 3) = Some u"
      by simp
    from slice_middle[of u x r] m(1,3,4) have s2: "slice raw (idx ! 4) (idx ! 5) = Some x"
      by simp
    from False i have "idx ! 2 \<noteq> - 1 \<and> idx ! 3 \<noteq> - 1" by (cases u) simp_all
    with assms Some s1 s2 show ?thesis
      by (auto simp: parse_press_def split: option.splits if_splits)
  qed
qed


text \<open>
  Once the unit and the value have matched, the rest of the pattern (\<^verbatim>\<open>(INS)?\s*\<close>)
  cannot fail: the candidate the matcher has reached is the match.
\<close>

lemma Find_press_tail:
  assumes "\<And>y. run press_tail (accept 0) \<lparr>pos = p, rest = sfx, caps = c\<rparr> = Some y \<Longrightarrow>
      run (Seq press_unit press_value) (run press_tail (accept 0)) (start re_press 0 raw) = Some y"
    and "length c = 8"
  shows "\<exists>y. FindStringSubmatchIndex re_press raw = Some y \<and>
     y ! 2 = c ! 2 \<and> y ! 3 = c ! 3 \<and> y ! 4 = c ! 4 \<and> y ! 5 = c ! 5"
proof -
  let ?T = "\<lparr>pos = p, rest = sfx, caps = c\<rparr>"
  from accept_run_frame[where t = ?T and p = 0, OF sem_press_tail] obtain y
    where y: "run press_tail (accept 0) ?T = Some y"
      "\<forall>i. 2 \<le> i \<longrightarrow> i div 2 \<notin> groups press_tail \<longrightarrow> y ! i = caps ?T ! i" by blast
  from y(2) have "y ! 2 = c ! 2 \<and> y ! 3 = c ! 3 \<and> y ! 4 = c ! 4 \<and> y ! 5 = c ! 5"
    by (simp add: groups_press_tail)
  moreover have unf: "run re_press k t =
      (if pos t = 0 then run (Seq press_unit press_value) (run press_tail k) t else None)"
    for k :: "thread \<Rightarrow> int list option" and t
    by (simp add: re_press_def run_Seq_ext)
  from assms(1)[OF y(1)] have "run re_press (accept 0) (start re_press 0 raw) = Some y"
    by (simp add: unf start_def)
  then have "FindStringSubmatchIndex re_press raw = Some y"
    unfolding FindStringSubmatchIndex_def by (rule execute_first)
  ultimately show ?thesis by blast
qed

lemma press_QNH1013:
  "parse_press (m, ''QNH1013'' @ sfx) =
     Inl (m, Errorf ''Error interpreting metar pressure value'')"
proof -
  have "\<exists>y. FindStringSubmatchIndex re_press (''QNH1013'' @ sfx) = Some y \<and>
     y ! 2 = [-1, -1, 0, 3, 3, 7, -1, -1] ! 2 \<and> y ! 3 = [-1, -1, 0, 3, 3, 7, -1, -1] ! 3 \<and>
     y ! 4 = [-1, -1, 0, 3, 3, 7, -1, -1] ! 4 \<and> y ! 5 = [-1, -1, 0, 3, 3, 7, -1, -1] ! 5"
    by (rule Find_press_tail[where p = 7 and sfx = sfx])
      (simp_all add: start_press press_unit_def press_value_def opt_def rep_def digit_def lits_def)
  then obtain y where "FindStringSubmatchIndex re_press (''QNH1013'' @ sfx) = Some y"
    "y ! 2 = 0" "y ! 3 = 3" by auto
  then show ?thesis
    by (simp add: parse_press_def slice_def)
qed

lemma press_1013:
  "parse_press (m, ''1013'' @ sfx) =
     Inl (m, Errorf ''Error interpreting metar pressure value'')"
proof -
  have "\<exists>y. FindStringSubmatchIndex re_press (''1013'' @ sfx) = Some y \<and>
     y ! 2 = [-1, -1, -1, -1, 0, 4, -1, -1] ! 2 \<and> y ! 3 = [-1, -1, -1, -1, 0, 4, -1, -1] ! 3 \<and>
     y ! 4 = [-1, -1, -1, -1, 0, 4, -1, -1] ! 4 \<and> y ! 5 = [-1, -1, -1, -1, 0, 4, -1, -1] ! 5"
    by (rule Find_press_tail[where p = 4 and sfx = sfx])
      (simp_all add: start_press press_unit_def press_value_def opt_def rep_def digit_def lits_def)
  then obtain y where "FindStringSubmatchIndex re_press (''1013'' @ sfx) = Some y"
    "y ! 2 = - 1" by auto
  then show ?thesis
    by (simp add: parse_press_def)
qed

text \<open>
Claim C5. The pressure step accepts only the prefix \<^verbatim>\<open>Q\<close>. Let the decode reach the
pressure step with the text \<open>ahead\<close>. A text that begins \<^verbatim>\<open>Q1013\<close> gives pressure 1013 and
success. A text that begins \<^verbatim>\<open>A2992\<close>, \<^verbatim>\<open>QNH1013\<close> or \<^verbatim>\<open>1013\<close> (another unit of the
pattern, or none) ends the decode with "Error interpreting metar pressure value", and any
text that does not begin with \<^verbatim>\<open>Q\<close> ends it with a pressure error. In general the decode
succeeds only when \<open>ahead\<close> is the letter \<^verbatim>\<open>Q\<close> followed at once by three or four digits,
and the pressure stored is their decimal value; whenever it does not succeed, the record
is left as the temperature step left it and the outcome is one of the three pressure
errors.
\<close>

theorem C5_pressure_accepts_only_Q:
  assumes "through_temp m rawMetar rawDate = Inr (m9, ahead)"
  shows "(ahead = ''Q1013'' @ sfx \<longrightarrow> Parse m rawMetar rawDate = (m9\<lparr>Pressure := 1013\<rparr>, nil)) \<and>
    (ahead = ''A2992'' @ sfx \<longrightarrow>
       Parse m rawMetar rawDate = (m9, Errorf ''Error interpreting metar pressure value'')) \<and>
    ((\<exists>r. ahead = CHR ''Q'' # r) \<or>
       Parse m rawMetar rawDate = (m9, Errorf ''Error parsing metar pressure'') \<or>
       Parse m rawMetar rawDate = (m9, Errorf ''Error interpreting metar pressure value'')) \<and>
    (ahead = ''QNH1013'' @ sfx \<or> ahead = ''1013'' @ sfx \<longrightarrow>
       Parse m rawMetar rawDate = (m9, Errorf ''Error interpreting metar pressure value'')) \<and>
    (\<forall>m'. Parse m rawMetar rawDate = (m', nil) \<longrightarrow>
       (\<exists>ds r. ahead = CHR ''Q'' # ds @ r \<and> (length ds = 3 \<or> length ds = 4) \<and>
          list_all isDigit ds \<and> m' = m9\<lparr>Pressure := decimal ds\<rparr>)) \<and>
    (\<forall>m' e. Parse m rawMetar rawDate = (m', e) \<and> e \<noteq> nil \<longrightarrow>
       m' = m9 \<and> (e = Errorf ''Error parsing metar pressure'' \<or>
         e = Errorf ''Error interpreting metar pressure value'' \<or>
         e = Errorf ''Error converting pressure value in metar''))"
proof (intro conjI impI allI)
  assume "ahead = ''Q1013'' @ sfx"
  with Parse_press[OF assms] press_Q1013[of m9 sfx]
  show "Parse m rawMetar rawDate = (m9\<lparr>Pressure := 1013\<rparr>, nil)" by simp
next
  assume "ahead = ''A2992'' @ sfx"
  with Parse_press[OF assms] press_A2992[of m9 sfx]
  show "Parse m rawMetar rawDate = (m9, Errorf ''Error interpreting metar pressure value'')"
    by simp
next
  from press_needs_Q[of ahead m9] Parse_press[OF assms]
  show "(\<exists>r. ahead = CHR ''Q'' # r) \<or>
       Parse m rawMetar rawDate = (m9, Errorf ''Error parsing metar pressure'') \<or>
       Parse m rawMetar rawDate = (m9, Errorf ''Error interpreting metar pressure value'')"
    by auto
next
  assume "ahead = ''QNH1013'' @ sfx \<or> ahead = ''1013'' @ sfx"
  with Parse_press[OF assms] press_QNH1013[of m9 sfx] press_1013[of m9 sfx]
  show "Parse m rawMetar rawDate = (m9, Errorf ''Error interpreting metar pressure value'')"
    by auto
next
  fix m'
  assume n: "Parse m rawMetar rawDate = (m', nil)"
  show "\<exists>ds r. ahead = CHR ''Q'' # ds @ r \<and> (length ds = 3 \<or> length ds = 4) \<and>
          list_all isDigit ds \<and> m' = m9\<lparr>Pressure := decimal ds\<rparr>"
  proof (cases "parse_press (m9, ahead)")
    case (Inl a)
    with n Parse_press[OF assms] have "parse_press (m9, ahead) = Inl (m', nil)" by simp
    from parse_press_Inl_errors[OF this] show ?thesis by simp
  next
    case (Inr c)
    with n Parse_press[OF assms] have "parse_press (m9, ahead) = Inr (m', snd c)"
      by (cases c) simp
    from parse_press_Inr_Q[OF this] show ?thesis .
  qed
next
  fix m' e
  assume f: "Parse m rawMetar rawDate = (m', e) \<and> e \<noteq> nil"
  then have f1: "Parse m rawMetar rawDate = (m', e)" and f2: "e \<noteq> nil" by simp_all
  have "parse_press (m9, ahead) = Inl (m', e)"
  proof (cases "parse_press (m9, ahead)")
    case (Inl a)
    with f1 Parse_press[OF assms] show ?thesis by simp
  next
    case (Inr c)
    with f1 Parse_press[OF assms] have "e = nil" by (cases c) simp
    with f2 show ?thesis by simp
  qed
  from parse_press_Inl_errors[OF this]
  show "m' = m9" "e = Errorf ''Error parsing metar pressure'' \<or>
         e = Errorf ''Error interpreting metar pressure value'' \<or>
         e = Errorf ''Error converting pressure value in metar''" by simp_all
qed

lemma sample_through_temp_QNH:
  "through_temp Metar0 ''YSSY 100000Z VRB05KT 9999 FEW030 15/10 QNH1013'' ''2023/06/10 09:00'' =
     Inr (\<lparr>Station = ''YSSY'', Time = 1686355200, Mod = [],
       Wind = \<lparr>Vrb = True, Dir = 0, Spd = 5, Gust = 0, VarFrom = 0, VarTo = 0\<rparr>,
       Visibility = 9999, Weather = [],
       Sky = [\<lparr>Cover = ''FEW'', Height = 30, Cloud = []\<rparr>],
       Temp = 15, DewPt = 10, Pressure = 0\<rparr>, ''QNH1013'')"
  by code_simp

lemma sample_through_temp_A2992:
  "through_temp Metar0 ''YSSY 100000Z VRB05KT 9999 FEW030 15/10 A2992'' ''2023/06/10 09:00'' =
     Inr (\<lparr>Station = ''YSSY'', Time = 1686355200, Mod = [],
       Wind = \<lparr>Vrb = True, Dir = 0, Spd = 5, Gust = 0, VarFrom = 0, VarTo = 0\<rparr>,
       Visibility = 9999, Weather = [],
       Sky = [\<lparr>Cover = ''FEW'', Height = 30, Cloud = []\<rparr>],
       Temp = 15, DewPt = 10, Pressure = 0\<rparr>, ''A2992'')"
  by code_simp

theorem C5_pressure_witness:
  "Parse Metar0 ''YSSY 100000Z VRB05KT 9999 FEW030 15/10 Q1013'' ''2023/06/10 09:00'' =
     (\<lparr>Station = ''YSSY'', Time = 1686355200, Mod = [],
       Wind = \<lparr>Vrb = True, Dir = 0, Spd = 5, Gust = 0, VarFrom = 0, VarTo = 0\<rparr>,
       Visibility = 9999, Weather = [],
       Sky = [\<lparr>Cover = ''FEW'', Height = 30, Cloud = []\<rparr>],
       Temp = 15, DewPt = 10, Pressure = 1013\<rparr>, nil) \<and>
   Parse Metar0 ''YSSY 100000Z VRB05KT 9999 FEW030 15/10 A2992'' ''2023/06/10 09:00'' =
     (\<lparr>Station = ''YSSY'', Time = 1686355200, Mod = [],
       Wind = \<lparr>Vrb = True, Dir = 0, Spd = 5, Gust = 0, VarFrom = 0, VarTo = 0\<rparr>,
       Visibility = 9999, Weather = [],
       Sky = [\<lparr>Cover = ''FEW'', Height = 30, Cloud = []\<rparr>],
       Temp = 15, DewPt = 10, Pressure = 0\<rparr>, Errorf ''Error interpreting metar pressure value'') \<and>
   Parse Metar0 ''YSSY 100000Z VRB05KT 9999 FEW030 15/10 QNH1013'' ''2023/06/10 09:00'' =
     (\<lparr>Station = ''YSSY'', Time = 1686355200, Mod = [],
       Wind = \<lparr>Vrb = True, Dir = 0, Spd = 5, Gust = 0, VarFrom = 0, VarTo = 0\<rparr>,
       Visibility = 9999, Weather = [],
       Sky = [\<lparr>Cover = ''FEW'', Height = 30, Cloud = []\<rparr>],
       Temp = 15, DewPt = 10, Pressure = 0\<rparr>, Errorf ''Error interpreting metar pressure value'')"
  using C5_pressure_accepts_only_Q[OF sample_through_temp, of "[]", THEN conjunct1]
    C5_pressure_accepts_only_Q[OF sample_through_temp_A2992, of "[]", THEN conjunct2,
      THEN conjunct1]
    C5_pressure_accepts_only_Q[OF sample_through_temp_QNH, of "[]", THEN conjunct2,
      THEN conjunct2, THEN conjunct2, THEN conjunct1]
  by simp

subsection \<open>C2: what a failed decode leaves in the record\<close>

text \<open>
  C2 as stated (after a failed decode no partly written record is visible to the caller)
  does not hold: \<^verbatim>\<open>Parse\<close> writes into the caller's record step by step and does not
  undo it. With \<^verbatim>\<open>CAVOK\<close> in place of the visibility the call returns the visibility
  error, and the record it was given has the station, the time and the wind of the report.
\<close>

theorem C2_partial_record_counterexample:
  "snd (Parse Metar0 ''YSSY 100000Z VRB05KT CAVOK 15/10 Q1013'' ''2023/06/10 09:00'') =
     Errorf ''Error parsing metar visibility'' \<and>
   Station (fst (Parse Metar0 ''YSSY 100000Z VRB05KT CAVOK 15/10 Q1013'' ''2023/06/10 09:00'')) =
     ''YSSY'' \<and>
   Station Metar0 = []"
  by (simp add: sample_CAVOK) (simp add: Metar0_def)

text \<open>
  C2, amended. A call that returns \<^verbatim>\<open>nil\<close> has written every mandatory field: station,
  time, wind, visibility, temperature, dew point and pressure are values decoded from the
  two texts, whatever record the call started from. A call that returns the station error
  leaves the record untouched. A call that returns any other error leaves in the record the
  four characters the station pattern captured, and the pressure as it was. However the
  call ends, each step that succeeded has left its value in the record: the station, the
  time, the modifier, the wind, the visibility, the weather entries, the sky entries, the
  temperature and the dew point are those of the record as that step left it. After a
  failure the record is thus partly written, with the values of the steps before the
  failing one.
\<close>

theorem C2_failure_leaves_partial_record:
  assumes "Parse m rawMetar rawDate = (m', e)"
  shows "(e = nil \<longrightarrow>
      (\<exists>st t md w v ws ss tp dp p. \<forall>n. Parse n rawMetar rawDate =
         (\<lparr>Station = st, Time = t, Mod = (case md of None \<Rightarrow> Mod n | Some x \<Rightarrow> x), Wind = w,
           Visibility = v, Weather = Weather n @ ws, Sky = Sky n @ ss, Temp = tp, DewPt = dp,
           Pressure = p\<rparr>, nil))) \<and>
    (e = Errorf ''Error parsing station identifier'' \<longrightarrow> m' = m) \<and>
    (\<forall>msg. e = Errorf msg \<and> msg \<noteq> ''Error parsing station identifier'' \<longrightarrow>
       (\<exists>raw1 idx. parse_type (m, rawMetar) = Inr (m, raw1) \<and>
          FindStringSubmatchIndex re_station raw1 = Some idx \<and>
          slice raw1 (idx ! 2) (idx ! 3) = Some (Station m')) \<and>
       length (Station m') = 4 \<and> Pressure m' = Pressure m) \<and>
    (\<forall>mk rk. through_station m rawMetar = Inr (mk, rk) \<longrightarrow> Station m' = Station mk) \<and>
    (\<forall>mk rk. through_time m rawMetar rawDate = Inr (mk, rk) \<longrightarrow> Time m' = Time mk) \<and>
    (\<forall>mk rk. through_modifier m rawMetar rawDate = Inr (mk, rk) \<longrightarrow> Mod m' = Mod mk) \<and>
    (\<forall>mk rk. through_wind m rawMetar rawDate = Inr (mk, rk) \<longrightarrow> Wind m' = Wind mk) \<and>
    (\<forall>mk rk. through_visibility m rawMetar rawDate = Inr (mk, rk) \<longrightarrow>
       Visibility m' = Visibility mk) \<and>
    (\<forall>mk rk. through_weather m rawMetar rawDate = Inr (mk, rk) \<longrightarrow> Weather m' = Weather mk) \<and>
    (\<forall>mk rk. through_sky m rawMetar rawDate = Inr (mk, rk) \<longrightarrow> Sky m' = Sky mk) \<and>
    (\<forall>mk rk. through_temp m rawMetar rawDate = Inr (mk, rk) \<longrightarrow>
       Temp m' = Temp mk \<and> DewPt m' = DewPt mk)"
proof -
  from assms have f: "fst (Parse m rawMetar rawDate) = m'" by simp
  have a: "e = nil \<longrightarrow>
      (\<exists>st t md w v ws ss tp dp p. \<forall>n. Parse n rawMetar rawDate =
         (\<lparr>Station = st, Time = t, Mod = (case md of None \<Rightarrow> Mod n | Some x \<Rightarrow> x), Wind = w,
           Visibility = v, Weather = Weather n @ ws, Sky = Sky n @ ss, Temp = tp, DewPt = dp,
           Pressure = p\<rparr>, nil))"
    using assms Parse_nil_fill[of m rawMetar rawDate m'] by blast
  have b: "e = Errorf ''Error parsing station identifier'' \<longrightarrow> m' = m"
    using Parse_failure[OF assms] by (auto simp: station_error_def)
  have c: "(\<exists>raw1 idx. parse_type (m, rawMetar) = Inr (m, raw1) \<and>
          FindStringSubmatchIndex re_station raw1 = Some idx \<and>
          slice raw1 (idx ! 2) (idx ! 3) = Some (Station m')) \<and>
       length (Station m') = 4 \<and> Pressure m' = Pressure m"
    if msg: "e = Errorf msg \<and> msg \<noteq> ''Error parsing station identifier''" for msg
  proof -
    from msg Parse_failure[OF assms] have l: "length (Station m') = 4" "Pressure m' = Pressure m"
      by (simp_all add: station_error_def)
    obtain m2 r2 where s: "through_station m rawMetar = Inr (m2, r2)"
    proof (cases "through_station m rawMetar")
      case (Inl a)
      obtain m2 e2 where "a = (m2, e2)" by (cases a)
      with Inl have "through_station m rawMetar = Inl (m2, e2)" by simp
      from through_station_Inl[OF this, of rawDate]
      have "Parse m rawMetar rawDate = (m2, e2)" "e2 = station_error \<or> e2 = panic" by simp_all
      with assms have "e = station_error \<or> e = panic" by simp
      with msg have False by (auto simp: station_error_def)
      then show ?thesis ..
    next
      case (Inr c)
      with that[of "fst c" "snd c"] show ?thesis by simp
    qed
    from Parse_holds_station[OF s, of rawDate] f have "Station m' = Station m2" by simp
    with through_station_Inr[OF s] l show ?thesis by simp
  qed
  from a b c f show ?thesis
    using Parse_holds_station[of m rawMetar _ _ rawDate] Parse_holds_time[of m rawMetar rawDate]
      Parse_holds_modifier[of m rawMetar rawDate] Parse_holds_wind[of m rawMetar rawDate]
      Parse_holds_visibility[of m rawMetar rawDate] Parse_holds_weather[of m rawMetar rawDate]
      Parse_holds_sky[of m rawMetar rawDate] Parse_holds_temp[of m rawMetar rawDate]
    by (intro conjI allI impI) (blast | simp)+
qed


lemma sample_through_station_CAVOK:
  "through_station Metar0 ''YSSY 100000Z VRB05KT CAVOK 15/10 Q1013'' =
     Inr (Metar0\<lparr>Station := ''YSSY''\<rparr>, ''100000Z VRB05KT CAVOK 15/10 Q1013'')"
  by code_simp

theorem C2_failure_witness:
  "length (Station (fst (Parse Metar0 ''YSSY 100000Z VRB05KT CAVOK 15/10 Q1013'' ''2023/06/10 09:00''))) = 4 \<and>
   Station (fst (Parse Metar0 ''YSSY 100000Z VRB05KT CAVOK 15/10 Q1013'' ''2023/06/10 09:00'')) = ''YSSY'' \<and>
   Wind (fst (Parse Metar0 ''YSSY 100000Z VRB05KT CAVOK 15/10 Q1013'' ''2023/06/10 09:00'')) =
     \<lparr>Vrb = True, Dir = 0, Spd = 5, Gust = 0, VarFrom = 0, VarTo = 0\<rparr> \<and>
   fst (Parse Metar0 [] ''2023/06/10 09:00'') = Metar0 \<and>
   (\<exists>st t md w v ws ss tp dp p. \<forall>n.
      Parse n ''YSSY 100000Z VRB05KT 9999 FEW030 15/10 Q1013'' ''2023/06/10 09:00'' =
         (\<lparr>Station = st, Time = t, Mod = (case md of None \<Rightarrow> Mod n | Some x \<Rightarrow> x), Wind = w,
           Visibility = v, Weather = Weather n @ ws, Sky = Sky n @ ss, Temp = tp, DewPt = dp,
           Pressure = p\<rparr>, nil))"
proof -
  note c = C2_failure_leaves_partial_record
  note rest1 = conjunct2
  from c[OF sample_Parse, THEN conjunct1]
  have a: "\<exists>st t md w v ws ss tp dp p. \<forall>n.
      Parse n ''YSSY 100000Z VRB05KT 9999 FEW030 15/10 Q1013'' ''2023/06/10 09:00'' =
         (\<lparr>Station = st, Time = t, Mod = (case md of None \<Rightarrow> Mod n | Some x \<Rightarrow> x), Wind = w,
           Visibility = v, Weather = Weather n @ ws, Sky = Sky n @ ss, Temp = tp, DewPt = dp,
           Pressure = p\<rparr>, nil)" by simp
  from c[OF sample_empty, THEN conjunct2, THEN conjunct1]
  have b: "fst (Parse Metar0 [] ''2023/06/10 09:00'') = Metar0" by (simp add: sample_empty)
  from c[OF sample_CAVOK, THEN conjunct2, THEN conjunct2, THEN conjunct1]
  have l: "length (Station (fst (Parse Metar0 ''YSSY 100000Z VRB05KT CAVOK 15/10 Q1013'' ''2023/06/10 09:00''))) = 4" by (simp add: sample_CAVOK)
  from c[OF sample_CAVOK, THEN conjunct2, THEN conjunct2, THEN conjunct2, THEN conjunct1,
      rule_format, OF sample_through_station_CAVOK]
  have s: "Station (fst (Parse Metar0 ''YSSY 100000Z VRB05KT CAVOK 15/10 Q1013'' ''2023/06/10 09:00'')) = ''YSSY''" by (simp add: sample_CAVOK)
  from c[OF sample_CAVOK, THEN conjunct2, THEN conjunct2, THEN conjunct2, THEN conjunct2,
      THEN conjunct2, THEN conjunct2, THEN conjunct1, rule_format, OF sample_through_wind_CAVOK]
  have w: "Wind (fst (Parse Metar0 ''YSSY 100000Z VRB05KT CAVOK 15/10 Q1013'' ''2023/06/10 09:00'')) =
     \<lparr>Vrb = True, Dir = 0, Spd = 5, Gust = 0, VarFrom = 0, VarTo = 0\<rparr>"
    by (simp add: sample_CAVOK)
  from a b l s w show ?thesis by blast
qed

subsection \<open>C6: decoding the same pair twice\<close>

text \<open>
  Claim C6. A decode reads nothing but the two texts and the record it is given:
  \<^verbatim>\<open>Parse\<close> compiles its patterns from a table it never writes (lines 65-68) and keeps no
  state of its own. For every pair of texts there is one outcome and one list of writes,
  the same for every record the decode is given: the outcome does not depend on the record,
  and the record returned is the one given with those writes applied. Two decodes of the
  same pair that start from records of equal content, as the two empty records the handler
  would pass (line 290), therefore return identical records and outcomes, whether the
  decode succeeds or fails.
\<close>

theorem C6_same_pair_same_record:
  "\<exists>d e. \<forall>n1 n2. Parse n1 rawMetar rawDate = (written d n1, e) \<and>
     Parse n2 rawMetar rawDate = (written d n2, e)"
  using Parse_frames[of rawMetar rawDate] by blast

end
